theory Spec2Isabelle
  imports Main "HOL-Library.Sublist"
begin

text \<open>
  The chat client of the ZERO engine: the section parser, the handler of one turn, the
  session store and the redactor for meta-questions. The repository holds two files named
  \<^verbatim>\<open>index.tsx\<close>; the definitions follow the first, the one with chain mode, and the one
  function taken from the second is marked as such.
\<close>

section \<open>Strings\<close>

text \<open>
  Program text is a list of code units; \<^typ>\<open>char\<close> covers the code units below 256.
  In that range the characters that \<^verbatim>\<open>\s\<close> and \<^verbatim>\<open>String.prototype.trim\<close>
  treat as white space are TAB, LF, VT, FF, CR, SPACE and NBSP, and the line
  terminators that \<^verbatim>\<open>.\<close> refuses are LF and CR.
\<close>

definition is_ws :: "char \<Rightarrow> bool" where
  "is_ws c = (c \<in> {CHR 0x09, CHR 0x0A, CHR 0x0B, CHR 0x0C, CHR 0x0D, CHR 0x20, CHR 0xA0})"

definition is_line_terminator :: "char \<Rightarrow> bool" where
  "is_line_terminator c = (c \<in> {CHR 0x0A, CHR 0x0D})"

definition trim :: "string \<Rightarrow> string" where
  "trim s = rev (dropWhile is_ws (rev (dropWhile is_ws s)))"

text \<open>\<^verbatim>\<open>s.startsWith(p)\<close> and \<^verbatim>\<open>s.includes(p)\<close>.\<close>

fun startsWith :: "string \<Rightarrow> string \<Rightarrow> bool" where
  "startsWith s [] = True"
| "startsWith [] (p # ps) = False"
| "startsWith (c # cs) (p # ps) = (c = p \<and> startsWith cs ps)"

fun includes_str :: "string \<Rightarrow> string \<Rightarrow> bool" where
  "includes_str [] p = (p = [])"
| "includes_str (c # cs) p = (startsWith (c # cs) p \<or> includes_str cs p)"

section \<open>Section parser\<close>

record Section =
  title :: string
  content :: string

record ChainData =
  task :: "Section option"
  constraints :: "Section option"
  refinedAnswers :: "Section list"

datatype ParsedData = Sections "Section list" | ChainD ChainData

record ParsedResponse =
  isChainMode :: bool
  data :: ParsedData

text \<open>
  The guard \<^verbatim>\<open>text.match(/\[.*?\]/)\<close>: some \<^verbatim>\<open>[\<close> is followed by a \<^verbatim>\<open>]\<close>
  with no line terminator in between.
\<close>

fun tag_closes :: "string \<Rightarrow> bool" where
  "tag_closes [] = False"
| "tag_closes (c # cs) =
     (if c = CHR '']'' then True
      else if is_line_terminator c then False
      else tag_closes cs)"

fun has_bracket_tag :: "string \<Rightarrow> bool" where
  "has_bracket_tag [] = False"
| "has_bracket_tag (c # cs) = ((c = CHR ''['' \<and> tag_closes cs) \<or> has_bracket_tag cs)"

text \<open>
  One attempt of \<^verbatim>\<open>/\[([^\]]+)\]\s*([\s\S]*?)(?=\n\n\[|$)/\<close> at the head of a suffix
  of the text. The title is the run of characters up to the first \<^verbatim>\<open>]\<close> and must
  not be empty; \<^verbatim>\<open>\s*\<close> is greedy; the body is lazy and stops at the first
  position that is followed by a blank line and \<^verbatim>\<open>[\<close>, or at the end of the text.
  The result is the raw title, the raw body and the text left after the match.
\<close>

fun lazy_body :: "string \<Rightarrow> string \<times> string" where
  "lazy_body [] = ([], [])"
| "lazy_body (c # cs) =
     (if startsWith (c # cs) ''\<newline>\<newline>['' then ([], c # cs)
      else (case lazy_body cs of (b, r) \<Rightarrow> (c # b, r)))"

definition match_at :: "string \<Rightarrow> (string \<times> string \<times> string) option" where
  "match_at s =
     (case s of
        [] \<Rightarrow> None
      | c # cs \<Rightarrow>
          if c \<noteq> CHR ''['' then None
          else (let t = takeWhile (\<lambda>x. x \<noteq> CHR '']'') cs;
                    r = dropWhile (\<lambda>x. x \<noteq> CHR '']'') cs
                in if t = [] \<or> r = [] then None
                   else (case lazy_body (dropWhile is_ws (tl r)) of
                           (b, rest) \<Rightarrow> Some (t, b, rest))))"

lemma lazy_body_length: "length (snd (lazy_body s)) \<le> length s"
  by (induction s) (auto split: prod.splits)

lemma match_at_shorter:
  assumes "match_at s = Some (t, b, rest)"
  shows "length rest < length s"
proof -
  from assms obtain cs where s: "s = CHR ''['' # cs"
    by (auto simp: match_at_def split: list.splits if_splits)
  let ?r = "dropWhile (\<lambda>x. x \<noteq> CHR '']'') cs"
  from assms s have r: "?r \<noteq> []" and rest: "rest = snd (lazy_body (dropWhile is_ws (tl ?r)))"
    by (auto simp: match_at_def Let_def split: if_splits prod.splits)
  have "length rest \<le> length (dropWhile is_ws (tl ?r))"
    unfolding rest by (rule lazy_body_length)
  also have "\<dots> \<le> length (tl ?r)"
    by (rule length_dropWhile_le)
  also have "\<dots> < length ?r"
    using r by (cases ?r) auto
  also have "\<dots> \<le> length cs"
    by (rule length_dropWhile_le)
  finally show ?thesis
    using s by simp
qed

text \<open>
  The \<^verbatim>\<open>while ((match = regex.exec(text)) !== null)\<close> loop: with the \<^verbatim>\<open>g\<close> flag each
  search starts where the previous match ended and moves right until an attempt succeeds.
\<close>

function scan_sections :: "string \<Rightarrow> Section list" where
  "scan_sections [] = []"
| "scan_sections (c # cs) =
     (case match_at (c # cs) of
        None \<Rightarrow> scan_sections cs
      | Some (t, b, rest) \<Rightarrow> \<lparr>title = trim t, content = trim b\<rparr> # scan_sections rest)"
  by pat_completeness auto
termination
  by (relation "measure length") (auto dest: match_at_shorter)

text \<open>The body of \<^verbatim>\<open>sections.forEach\<close> and the fold it performs on \<^verbatim>\<open>chainData\<close>.\<close>

definition is_constraints_title :: "string \<Rightarrow> bool" where
  "is_constraints_title t = (t = ''Constraints'' \<or> t = ''STANDING CONSTRAINTS'')"

definition absorb :: "ChainData \<Rightarrow> Section \<Rightarrow> ChainData" where
  "absorb cd s =
     (if title s = ''Task'' then cd\<lparr>task := Some s\<rparr>
      else if is_constraints_title (title s) then
        (case constraints cd of
           Some c \<Rightarrow>
             cd\<lparr>constraints :=
                  Some (c\<lparr>content := content c @ ''\<newline>\<newline>'' @ (''**'' @ title s @ ''**\<newline>'') @ content s\<rparr>)\<rparr>
         | None \<Rightarrow> cd\<lparr>constraints := Some \<lparr>title = ''Constraints'', content = content s\<rparr>\<rparr>)
      else if startsWith (title s) ''Refined Answer'' then
        cd\<lparr>refinedAnswers := refinedAnswers cd @ [s]\<rparr>
      else cd)"

definition emptyChain :: ChainData where
  "emptyChain = \<lparr>task = None, constraints = None, refinedAnswers = []\<rparr>"

definition decompose :: "Section list \<Rightarrow> ChainData" where
  "decompose secs = foldl absorb emptyChain secs"

definition responseSection :: "string \<Rightarrow> ParsedResponse" where
  "responseSection text =
     \<lparr>isChainMode = False, data = Sections [\<lparr>title = ''Response'', content = text\<rparr>]\<rparr>"

definition parseResponse :: "string \<Rightarrow> ParsedResponse" where
  "parseResponse text =
     (if \<not> has_bracket_tag text \<and> trim text \<noteq> [] then responseSection text
      else (let sections = scan_sections text
            in if length sections = 0 \<and> trim text \<noteq> [] then responseSection text
               else if \<not> list_ex (\<lambda>s. startsWith (title s) ''Refined Answer'') sections
                    then \<lparr>isChainMode = False, data = Sections sections\<rparr>
                    else \<lparr>isChainMode = True, data = ChainD (decompose sections)\<rparr>))"


section \<open>Data model\<close>

record Citation =
  uri :: string
  cite_title :: string

record Translation =
  lang :: string
  tr_content :: string

record Attachment =
  att_name :: string
  att_preview :: string
  att_type :: string
  att_size :: nat

datatype Author = User | Ai

record Message =
  msg_id :: nat
  author :: Author
  msg_content :: string
  citations :: "Citation list option"
  translation :: "Translation option"
  isTranslating :: "bool option"
  attachment :: "Attachment option"
  parsedData :: "ParsedResponse option"

text \<open>One entry of \<^verbatim>\<open>chatHistory\<close>: a role and its parts (text or inline data).\<close>

datatype Part = TextPart string | InlineData string string

record Content =
  role :: string
  parts :: "Part list"

record Session =
  session_id :: string
  name :: string
  messages :: "Message list"
  chatHistory :: "Content list"
  createdAt :: nat

datatype Stage = Initializing | Awaiting_task | Processing | Awaiting_critique | Error_stage

text \<open>
  \<^verbatim>\<open>sourceCode\<close> is written only by \<^verbatim>\<open>initApp\<close>, which stores the four fetched files
  under their names in this order; \<^verbatim>\<open>Object.entries\<close> enumerates them in it.
\<close>

record SourceCode =
  index_tsx :: string
  index_css :: string
  index_html :: string
  metadata_json :: string

record File =
  file_name :: string
  file_type :: string
  file_size :: nat

record PendingAttachment =
  att_file :: File
  preview :: string

text \<open>What the application does to the world outside its own state.\<close>

datatype Effect =
    SendMessage string
  | SendMessageStream "Part list"
  | ConsoleError string
  | Reload

text \<open>
  The state of \<^verbatim>\<open>App\<close> (the \<^verbatim>\<open>useState\<close> cells the handlers read and write), the two
  \<^verbatim>\<open>localStorage\<close> keys, and the log of effects performed so far. \<open>ai\<close> and \<open>chat\<close> say
  whether the client and the chat object are there; the cells \<^verbatim>\<open>attachment\<close> and
  \<^verbatim>\<open>isChainMode\<close> are \<open>pending\<close> and \<open>chainMode\<close>, the names being taken by fields of
  \<^verbatim>\<open>Message\<close> and \<^verbatim>\<open>ParsedResponse\<close>.
\<close>

record App =
  ai :: bool
  chat :: bool
  stage :: Stage
  isLoading :: bool
  userInput :: string
  critique :: string
  pending :: "PendingAttachment option"
  chainMode :: bool
  sourceCode :: "SourceCode option"
  standingConstraints :: "string list"
  isSessionsModalOpen :: bool
  sessions :: "Session list"
  activeSessionId :: string
  zero_sessions :: "string option"
  zero_active_session_id :: "string option"
  effects :: "Effect list"

section \<open>Meta-question redactor\<close>

text \<open>\<^verbatim>\<open>xs.join(sep)\<close>.\<close>

fun join :: "string \<Rightarrow> string list \<Rightarrow> string" where
  "join sep [] = []"
| "join sep [x] = x"
| "join sep (x # y # ys) = x @ sep @ join sep (y # ys)"

text \<open>
  The test \<^verbatim>\<open>/what is this app|...|make it better/i.test(s)\<close>: some phrase occurs in the
  text, letters compared without regard to case.
\<close>

definition lower_ascii :: "char \<Rightarrow> char" where
  "lower_ascii c =
     (let n = (of_char c :: nat) in if 65 \<le> n \<and> n \<le> 90 then char_of (n + 32) else c)"

definition metaPhrases :: "string list" where
  "metaPhrases =
     [''what is this app'', ''explain your code'', ''how do you work'', ''your purpose'',
      ''your features'', ''your source code'', ''who are you'', ''what are you'', ''self check'',
      ''analyze your code'', ''improve the app'', ''make it better'']"

definition metaTest :: "string \<Rightarrow> bool" where
  "metaTest s = list_ex (includes_str (map lower_ascii s)) metaPhrases"

text \<open>
  \<^verbatim>\<open>src.replace(/const MASTER_PROMPT = `[\s\S]*?`;/, placeholder)\<close>: the first position
  where the opening text stands and a closing \<^verbatim>\<open>`;\<close> follows somewhere is replaced,
  up to the nearest such closing; nothing else is touched.
\<close>

definition decl_open :: string where
  "decl_open = ''const MASTER_PROMPT = `''"

definition decl_close :: string where
  "decl_close = ''`;''"

definition redacted_decl :: string where
  "redacted_decl = ''const MASTER_PROMPT = \"[REDACTED FOR SELF-ANALYSIS]\";''"

fun after_close :: "string \<Rightarrow> string option" where
  "after_close [] = None"
| "after_close (c # cs) =
     (if startsWith (c # cs) decl_close then Some (drop (length decl_close) (c # cs))
      else after_close cs)"

fun redact :: "string \<Rightarrow> string" where
  "redact [] = []"
| "redact (c # cs) =
     (if startsWith (c # cs) decl_open then
        (case after_close (drop (length decl_open) (c # cs)) of
           Some rest \<Rightarrow> redacted_decl @ rest
         | None \<Rightarrow> c # redact cs)
      else c # redact cs)"

text \<open>
  \<^verbatim>\<open>unescape(encodeURIComponent(content))\<close> is the UTF-8 encoding of the text, one
  character per byte; for code units below 256 that is one byte below 128 and two bytes
  from 128 on.
\<close>

definition utf8_char :: "char \<Rightarrow> string" where
  "utf8_char c =
     (let n = (of_char c :: nat)
      in if n < 128 then [c] else [char_of (192 + n div 64), char_of (128 + n mod 64)])"

definition utf8 :: "string \<Rightarrow> string" where
  "utf8 s = concat (map utf8_char s)"

text \<open>\<^verbatim>\<open>btoa\<close>: Base64 with padding, three bytes to four characters.\<close>

definition b64_alphabet :: string where
  "b64_alphabet = ''ABCDEFGHIJKLMNOPQRSTUVWXYZabcdefghijklmnopqrstuvwxyz0123456789+/''"

definition b64 :: "nat \<Rightarrow> char" where
  "b64 n = b64_alphabet ! (n mod 64)"

fun btoa :: "string \<Rightarrow> string" where
  "btoa [] = []"
| "btoa [a] =
     (let x = (of_char a :: nat)
      in [b64 (x div 4), b64 (x mod 4 * 16), CHR ''='', CHR ''=''])"
| "btoa [a, b] =
     (let x = (of_char a :: nat); y = (of_char b :: nat)
      in [b64 (x div 4), b64 (x mod 4 * 16 + y div 16), b64 (y mod 16 * 4), CHR ''=''])"
| "btoa (a # b # c # rest) =
     (let x = (of_char a :: nat); y = (of_char b :: nat); z = (of_char c :: nat)
      in [b64 (x div 4), b64 (x mod 4 * 16 + y div 16), b64 (y mod 16 * 4 + z div 64),
          b64 (z mod 64)] @ btoa rest)"

definition redactSource :: "SourceCode \<Rightarrow> SourceCode" where
  "redactSource src = src\<lparr>index_tsx := redact (index_tsx src)\<rparr>"

definition entries :: "SourceCode \<Rightarrow> (string \<times> string) list" where
  "entries src =
     [(''index.tsx'', index_tsx src), (''index.css'', index_css src),
      (''index.html'', index_html src), (''metadata.json'', metadata_json src)]"

definition encodeFile :: "string \<times> string \<Rightarrow> string" where
  "encodeFile e = (case e of (fileName, c) \<Rightarrow> ''[FILE: '' @ fileName @ '']\<newline>'' @ btoa (utf8 c))"

definition encodedCodeContext :: "SourceCode \<Rightarrow> string" where
  "encodedCodeContext src = join ''\<newline>\<newline>'' (map encodeFile (entries (redactSource src)))"

definition metaHeader :: string where
  "metaHeader = ''[META-QUESTION DETECTED] I will now operate under the SELF-AWARENESS PROTOCOL.\<newline>\<newline>Here are my Base64 encoded source files for analysis. You must decode them before answering my question.\<newline>\<newline>''"

definition metaFooter :: string where
  "metaFooter = ''\<newline>\<newline>Based on the decoded source code, answer my question: ''"

definition metaPrompt :: "SourceCode \<Rightarrow> string \<Rightarrow> string" where
  "metaPrompt src userMessageContent =
     metaHeader @ encodedCodeContext src @ metaFooter @ userMessageContent"

text \<open>
  The inverse direction, for stating what the model can read back: \<^verbatim>\<open>atob\<close> on padded
  Base64, and the decoding of UTF-8 into code units below 256.
\<close>

definition b64_index :: "char \<Rightarrow> nat option" where
  "b64_index c = map_of (zip b64_alphabet [0..<64]) c"

fun atob :: "string \<Rightarrow> string option" where
  "atob [] = Some []"
| "atob (a # b # c # d # rest) =
     (case (b64_index a, b64_index b) of
        (Some x, Some y) \<Rightarrow>
          if c = CHR ''='' \<and> d = CHR ''='' \<and> rest = [] then Some [char_of (x * 4 + y div 16)]
          else (case b64_index c of
                  None \<Rightarrow> None
                | Some z \<Rightarrow>
                    if d = CHR ''='' \<and> rest = []
                    then Some [char_of (x * 4 + y div 16), char_of (y mod 16 * 16 + z div 4)]
                    else (case b64_index d of
                            None \<Rightarrow> None
                          | Some w \<Rightarrow>
                              map_option
                                (\<lambda>r. [char_of (x * 4 + y div 16), char_of (y mod 16 * 16 + z div 4),
                                      char_of (z mod 4 * 64 + w)] @ r)
                                (atob rest)))
      | _ \<Rightarrow> None)"
| "atob _ = None"

fun utf8_decode :: "string \<Rightarrow> string option" where
  "utf8_decode [] = Some []"
| "utf8_decode [a] = (if (of_char a :: nat) < 128 then Some [a] else None)"
| "utf8_decode (a # b # rest) =
     (let x = (of_char a :: nat); y = (of_char b :: nat)
      in if x < 128 then map_option ((#) a) (utf8_decode (b # rest))
         else if 192 \<le> x \<and> x < 196 \<and> 128 \<le> y \<and> y < 192
              then map_option ((#) (char_of ((x - 192) * 64 + (y - 128)))) (utf8_decode rest)
              else None)"

definition decodeFile :: "string \<Rightarrow> string option" where
  "decodeFile payload = (case atob payload of None \<Rightarrow> None | Some bytes \<Rightarrow> utf8_decode bytes)"

section \<open>Prompt composer\<close>

definition framedPrompt :: "bool \<Rightarrow> string list \<Rightarrow> Stage \<Rightarrow> string \<Rightarrow> string" where
  "framedPrompt isChain constraints0 stg userMessageContent =
     (let modePrefix = (if isChain then ''[MODE: CHAIN]\<newline>'' else ''[MODE: NORMAL]\<newline>'');
          constraintsPrefix =
            (if length constraints0 > 0
             then ''[STANDING CONSTRAINTS]\<newline>'' @ join ''\<newline>'' (map (\<lambda>c. ''- '' @ c) constraints0)
                  @ ''\<newline>\<newline>''
             else [])
      in if stg = Awaiting_critique then userMessageContent
         else constraintsPrefix @ modePrefix @ userMessageContent)"

definition isMetaQuestion :: "Stage \<Rightarrow> string \<Rightarrow> bool" where
  "isMetaQuestion stg userMessageContent = (stg = Awaiting_task \<and> metaTest userMessageContent)"

definition finalPromptToServer :: "App \<Rightarrow> string \<Rightarrow> string" where
  "finalPromptToServer st userMessageContent =
     (case sourceCode st of
        Some src \<Rightarrow>
          if isMetaQuestion (stage st) userMessageContent then metaPrompt src userMessageContent
          else framedPrompt (chainMode st) (standingConstraints st) (stage st) userMessageContent
      | None \<Rightarrow> framedPrompt (chainMode st) (standingConstraints st) (stage st) userMessageContent)"


section \<open>Protocol state machine: one turn\<close>

text \<open>
  What the outside world supplies during one call of \<^verbatim>\<open>handleSendMessage\<close>: the two
  readings of the clock, the result of reading the attached file (\<open>None\<close>: the read
  rejects), and the model's reply: the call rejects, or it streams chunks and then either
  ends or throws.
\<close>

record Web =
  web_uri :: string
  web_title :: string

record Chunk =
  chunk_text :: "string option"
  groundingChunks :: "Web option list option"

datatype ModelReply = CallRejects | Streams "Chunk list" bool

record TurnEnv =
  now_user :: nat
  now_ai :: nat
  fileData :: "string option"
  reply :: ModelReply

definition userMessageContent :: "App \<Rightarrow> string option" where
  "userMessageContent st =
     (if stage st = Awaiting_task then Some (userInput st)
      else if stage st = Awaiting_critique then Some (critique st)
      else None)"

definition activeSession :: "App \<Rightarrow> Session option" where
  "activeSession st = find (\<lambda>s. session_id s = activeSessionId st) (sessions st)"

definition userMessage :: "App \<Rightarrow> TurnEnv \<Rightarrow> string \<Rightarrow> Message" where
  "userMessage st env umc =
     \<lparr>msg_id = now_user env, author = User, msg_content = umc, citations = None,
      translation = None, isTranslating = None,
      attachment =
        (case pending st of
           None \<Rightarrow> None
         | Some a \<Rightarrow>
             Some \<lparr>att_name = file_name (att_file a), att_preview = preview a,
                   att_type = file_type (att_file a), att_size = file_size (att_file a)\<rparr>),
      parsedData = None\<rparr>"

definition aiMessagePlaceholder :: "TurnEnv \<Rightarrow> Message" where
  "aiMessagePlaceholder env =
     \<lparr>msg_id = now_ai env + 1, author = Ai, msg_content = [], citations = Some [],
      translation = None, isTranslating = None, attachment = None, parsedData = None\<rparr>"

text \<open>
  \<^verbatim>\<open>setSessions(prev => prev.map(s => s.id === activeSessionId ? f(s) : s))\<close>. An update
  that reads \<^verbatim>\<open>lastMessage.author\<close> throws a TypeError when the session has no
  message; the update is then \<open>None\<close>.
\<close>

fun updateSessions :: "string \<Rightarrow> (Session \<Rightarrow> Session option) \<Rightarrow> Session list \<Rightarrow> Session list option" where
  "updateSessions aid f [] = Some []"
| "updateSessions aid f (s # ss) =
     (if session_id s \<noteq> aid then map_option ((#) s) (updateSessions aid f ss)
      else (case f s of
              None \<Rightarrow> None
            | Some s' \<Rightarrow> map_option ((#) s') (updateSessions aid f ss)))"

definition withLastMessage :: "(Message \<Rightarrow> Message) \<Rightarrow> Session \<Rightarrow> Session option" where
  "withLastMessage f s =
     (case messages s of
        [] \<Rightarrow> None
      | m # ms \<Rightarrow>
          (let newMessages = messages s; lastMessage = last newMessages
           in Some (s\<lparr>messages :=
                       (if author lastMessage = Ai then butlast newMessages @ [f lastMessage]
                        else newMessages)\<rparr>)))"

definition beginTurn :: "App \<Rightarrow> TurnEnv \<Rightarrow> string \<Rightarrow> App" where
  "beginTurn st env umc =
     st\<lparr>isLoading := True, stage := Processing,
        sessions :=
          map (\<lambda>s. if session_id s = activeSessionId st
                    then s\<lparr>messages := messages s @ [userMessage st env umc, aiMessagePlaceholder env]\<rparr>
                    else s)
              (sessions st),
        userInput := [], critique := [], pending := None\<rparr>"

text \<open>The parts sent to the model and recorded for the history (\<open>None\<close>: the file read rejects).\<close>

definition userPartsForHistory :: "App \<Rightarrow> TurnEnv \<Rightarrow> string \<Rightarrow> Part list option" where
  "userPartsForHistory st env prompt =
     (case pending st of
        None \<Rightarrow> Some [TextPart prompt]
      | Some a \<Rightarrow>
          (case fileData env of
             None \<Rightarrow> None
           | Some base64Data \<Rightarrow> Some [TextPart prompt, InlineData (file_type (att_file a)) base64Data]))"

text \<open>The body of \<^verbatim>\<open>for await (const chunk of result)\<close>.\<close>

definition webCitations :: "Web option list \<Rightarrow> Citation list" where
  "webCitations newChunks =
     map (\<lambda>w. \<lparr>uri = web_uri w, cite_title = web_title w\<rparr>)
       (filter (\<lambda>w. web_uri w \<noteq> [] \<and> web_title w \<noteq> [])
          (concat (map (\<lambda>c. case c of None \<Rightarrow> [] | Some w \<Rightarrow> [w]) newChunks)))"

definition chunkText :: "Chunk \<Rightarrow> string" where
  "chunkText ch = (case chunk_text ch of Some t \<Rightarrow> t | None \<Rightarrow> ''undefined'')"

definition onChunk :: "string \<Rightarrow> Chunk \<Rightarrow> App \<times> string \<times> Citation list \<Rightarrow> (App \<times> string \<times> Citation list) option" where
  "onChunk aid ch acc =
     (case acc of (st, fullResponseText0, citations0) \<Rightarrow>
        (let fullResponseText = fullResponseText0 @ chunkText ch;
             cits = (case groundingChunks ch of Some newChunks \<Rightarrow> webCitations newChunks
                     | None \<Rightarrow> citations0);
             parsed = parseResponse fullResponseText
         in (case updateSessions aid
                    (withLastMessage (\<lambda>m. m\<lparr>msg_content := fullResponseText, citations := Some cits,
                                               parsedData := Some parsed\<rparr>))
                    (sessions st) of
               None \<Rightarrow> None
             | Some ss \<Rightarrow> Some (st\<lparr>sessions := ss\<rparr>, fullResponseText, cits))))"

text \<open>The loop, as the list of the states it leaves after each chunk.\<close>

fun streamTrace :: "string \<Rightarrow> Chunk list \<Rightarrow> App \<times> string \<times> Citation list \<Rightarrow> (App \<times> string \<times> Citation list) list option" where
  "streamTrace aid [] acc = Some []"
| "streamTrace aid (ch # chs) acc =
     (case onChunk aid ch acc of
        None \<Rightarrow> None
      | Some acc' \<Rightarrow> map_option ((#) acc') (streamTrace aid chs acc'))"

text \<open>After the loop: the rename, the history append and the next stage.\<close>

definition completeSession :: "string \<Rightarrow> Part list \<Rightarrow> string \<Rightarrow> Session \<Rightarrow> Session" where
  "completeSession umc userParts fullResponseText s =
     (let shouldRename = (length (filter (\<lambda>m. author m = User) (messages s)) = 1
                          \<and> name s = ''New Session'');
          newName = (if shouldRename then take 50 umc else name s);
          userContent = \<lparr>role = ''user'', parts = userParts\<rparr>;
          modelContent = \<lparr>role = ''model'', parts = [TextPart fullResponseText]\<rparr>;
          newHistory = chatHistory s @ [userContent, modelContent]
      in s\<lparr>name := newName, chatHistory := newHistory\<rparr>)"

definition nextStage :: "bool \<Rightarrow> bool \<Rightarrow> string \<Rightarrow> Stage" where
  "nextStage isMeta isChain fullResponseText =
     (if isMeta then Awaiting_task
      else if \<not> isChain \<and> includes_str fullResponseText ''[Draft]''
              \<and> \<not> includes_str fullResponseText ''[Final Output]''
      then Awaiting_critique
      else Awaiting_task)"

definition completeTurn :: "App \<Rightarrow> string \<Rightarrow> Part list \<Rightarrow> App \<times> string \<times> Citation list \<Rightarrow> App" where
  "completeTurn st0 umc userParts acc =
     (case acc of (st, fullResponseText, cits) \<Rightarrow>
        st\<lparr>sessions :=
             map (\<lambda>s. if session_id s \<noteq> activeSessionId st0 then s
                       else completeSession umc userParts fullResponseText s)
                 (sessions st),
           stage := nextStage (isMetaQuestion (stage st0) umc) (chainMode st0) fullResponseText\<rparr>)"

text \<open>The \<^verbatim>\<open>catch\<close> block.\<close>

definition errorSection :: string where
  "errorSection = ''[Error]\<newline>An unexpected error occurred while processing your request. Please try again. If the issue continues, please simplify your prompt or check the developer console for technical details.''"

definition failTurn :: "string \<Rightarrow> App \<Rightarrow> App option" where
  "failTurn aid st =
     (case updateSessions aid (withLastMessage (\<lambda>m. m\<lparr>msg_content := errorSection\<rparr>)) (sessions st) of
        None \<Rightarrow> None
      | Some ss \<Rightarrow>
          Some (st\<lparr>sessions := ss, stage := Awaiting_task,
                   effects := effects st @ [ConsoleError ''Message sending failed:'']\<rparr>))"

text \<open>
  The \<^verbatim>\<open>try\<close> block with its \<^verbatim>\<open>catch\<close>, from the state \<open>st1\<close> left by the updates before
  it. The result is the list of states seen while the stream runs and the state in which
  the block ends; \<open>None\<close> is a TypeError thrown by a state update.
\<close>

definition tryTurn :: "App \<Rightarrow> App \<Rightarrow> TurnEnv \<Rightarrow> string \<Rightarrow> (App list \<times> App) option" where
  "tryTurn st0 st1 env umc =
     (let aid = activeSessionId st0 in
      case userPartsForHistory st0 env (finalPromptToServer st0 umc) of
        None \<Rightarrow> map_option (Pair []) (failTurn aid st1)
      | Some userParts \<Rightarrow>
          (let st2 = st1\<lparr>effects := effects st1 @ [SendMessageStream userParts]\<rparr> in
           case reply env of
             CallRejects \<Rightarrow> map_option (Pair []) (failTurn aid st2)
           | Streams chunks ok \<Rightarrow>
               (case streamTrace aid chunks (st2, [], []) of
                  None \<Rightarrow> None
                | Some tr \<Rightarrow>
                    (let acc = last ((st2, [], []) # tr) in
                     if ok then Some (map fst tr, completeTurn st0 umc userParts acc)
                     else map_option (Pair (map fst tr)) (failTurn aid (fst acc))))))"

text \<open>
  \<^verbatim>\<open>handleSendMessage\<close>: the guards, the updates before the \<^verbatim>\<open>try\<close>, the \<^verbatim>\<open>try\<close> block, and
  \<^verbatim>\<open>finally\<close>. \<open>turnStates\<close> lists every state the turn goes through, the last one
  being the state it ends in.
\<close>

definition turnStates :: "App \<Rightarrow> TurnEnv \<Rightarrow> (App list \<times> App) option" where
  "turnStates st env =
     (if isLoading st \<or> \<not> chat st \<or> activeSession st = None then Some ([], st)
      else (case userMessageContent st of
              None \<Rightarrow> Some ([], st)
            | Some umc \<Rightarrow>
                if trim umc = [] \<and> pending st = None then Some ([], st)
                else (let st1 = beginTurn st env umc in
                      case tryTurn st st1 env umc of
                        None \<Rightarrow> None
                      | Some (mid, fin) \<Rightarrow> Some (st1 # mid, fin\<lparr>isLoading := False\<rparr>))))"

definition handleSendMessage :: "App \<Rightarrow> TurnEnv \<Rightarrow> App option" where
  "handleSendMessage st env = map_option snd (turnStates st env)"

text \<open>
  What \<^verbatim>\<open>AIMessageBlock\<close> puts on the screen for a message, its memo \<^verbatim>\<open>parsedResponse\<close>: the
  cached \<^verbatim>\<open>parsedData\<close> when the message has one, the parse of its content otherwise.
\<close>

definition renderedResponse :: "Message \<Rightarrow> ParsedResponse" where
  "renderedResponse message =
     (case parsedData message of
        Some p \<Rightarrow> p
      | None \<Rightarrow> parseResponse (msg_content message))"


section \<open>Session store\<close>

text \<open>Decimal digits of a number, for \<^verbatim>\<open>`session_${Date.now()}`\<close>.\<close>

function decimal :: "nat \<Rightarrow> string" where
  "decimal n = (if n < 10 then [char_of (48 + n)] else decimal (n div 10) @ [char_of (48 + n mod 10)])"
  by pat_completeness auto
termination
  by (relation "measure (\<lambda>n. n)") auto

text \<open>
  \<^verbatim>\<open>createNewSession\<close>. The fixed text \<^verbatim>\<open>MASTER_PROMPT\<close> is the argument \<open>masterPrompt\<close>;
  the world supplies the model's answer (\<open>None\<close>: \<^verbatim>\<open>sendMessage\<close> rejects) and two
  readings of the clock. The result is the new state and the new session's id, or
  \<open>None\<close> when the call rejects (only the effect log has grown then).
\<close>

record CreateEnv =
  answer :: "string option"
  now_id :: nat
  now_created :: nat

definition createNewSession :: "string \<Rightarrow> CreateEnv \<Rightarrow> App \<Rightarrow> App \<times> string option" where
  "createNewSession masterPrompt env st =
     (let st1 = st\<lparr>effects := effects st @ [SendMessage masterPrompt]\<rparr> in
      case answer env of
        None \<Rightarrow> (st1, None)
      | Some responseText \<Rightarrow>
          (let initialChatHistory =
                 [\<lparr>role = ''user'', parts = [TextPart masterPrompt]\<rparr>,
                  \<lparr>role = ''model'', parts = [TextPart responseText]\<rparr>];
               newSession =
                 \<lparr>session_id = ''session_'' @ decimal (now_id env), name = ''New Session'',
                  messages =
                    [\<lparr>msg_id = 1, author = Ai, msg_content = responseText, citations = None,
                      translation = None, isTranslating = None, attachment = None,
                      parsedData = Some (parseResponse responseText)\<rparr>],
                  chatHistory = initialChatHistory, createdAt = now_created env\<rparr>
           in (st1\<lparr>sessions := sessions st1 @ [newSession]\<rparr>, Some (session_id newSession))))"

text \<open>
  \<^verbatim>\<open>initApp\<close>. The world supplies the four fetched files (\<open>None\<close>: a fetch throws),
  whether the client object can be built, the clock for the error session, and what
  \<^verbatim>\<open>createNewSession\<close> needs. \<^verbatim>\<open>JSON.parse\<close> is the argument \<open>parse\<close>, \<open>None\<close> where it
  throws. An empty string read from storage counts as absent, as \<^verbatim>\<open>&&\<close> has it.
\<close>

record InitEnv =
  fetched :: "SourceCode option"
  clientOk :: bool
  create :: CreateEnv
  now_error :: nat

definition errorSession :: "nat \<Rightarrow> Session" where
  "errorSession now =
     \<lparr>session_id = ''error_session'', name = ''Error'',
      messages =
        [\<lparr>msg_id = 1, author = Ai,
          msg_content = ''Error: Could not initialize the ZERO Engine. Please check your API key and refresh the page.'',
          citations = None, translation = None, isTranslating = None, attachment = None,
          parsedData = None\<rparr>],
      chatHistory = [], createdAt = now\<rparr>"

definition initFailed :: "InitEnv \<Rightarrow> App \<Rightarrow> App" where
  "initFailed env st =
     st\<lparr>sessions := [errorSession (now_error env)],
        activeSessionId := session_id (errorSession (now_error env)),
        stage := Error_stage,
        effects := effects st @ [ConsoleError ''Initialization failed:''],
        isLoading := False\<rparr>"

definition freshStart :: "string \<Rightarrow> InitEnv \<Rightarrow> App \<Rightarrow> App" where
  "freshStart masterPrompt env st =
     (case createNewSession masterPrompt (create env) st of
        (st', None) \<Rightarrow> initFailed env st'
      | (st', Some newSessionId) \<Rightarrow>
          st'\<lparr>activeSessionId := newSessionId, stage := Awaiting_task, isLoading := False\<rparr>)"

definition initApp :: "string \<Rightarrow> (string \<Rightarrow> Session list option) \<Rightarrow> InitEnv \<Rightarrow> App \<Rightarrow> App" where
  "initApp masterPrompt parse env st =
     (case fetched env of
        None \<Rightarrow> initFailed env st
      | Some fetchedSources \<Rightarrow>
          (let st1 = st\<lparr>sourceCode := Some fetchedSources\<rparr> in
           if \<not> clientOk env then initFailed env st1
           else (let st2 = st1\<lparr>ai := True\<rparr> in
                 case (zero_sessions st2, zero_active_session_id st2) of
                   (Some savedSessions, Some savedActiveId) \<Rightarrow>
                     if savedSessions \<noteq> [] \<and> savedActiveId \<noteq> [] then
                       (case parse savedSessions of
                          None \<Rightarrow> initFailed env st2
                        | Some loaded \<Rightarrow>
                            st2\<lparr>sessions := loaded, activeSessionId := savedActiveId,
                                stage := Awaiting_task, isLoading := False\<rparr>)
                     else freshStart masterPrompt env st2
                 | _ \<Rightarrow> freshStart masterPrompt env st2)))"

text \<open>
  The effect that runs after a render in which \<^verbatim>\<open>sessions\<close> or \<^verbatim>\<open>activeSessionId\<close> changed;
  \<^verbatim>\<open>JSON.stringify\<close> is the argument \<open>stringify\<close>.
\<close>

definition persist :: "(Session list \<Rightarrow> string) \<Rightarrow> App \<Rightarrow> App" where
  "persist stringify st =
     (if length (sessions st) > 0 \<and> activeSessionId st \<noteq> []
      then st\<lparr>zero_sessions := Some (stringify (sessions st)),
              zero_active_session_id := Some (activeSessionId st)\<rparr>
      else st)"

text \<open>
  \<^verbatim>\<open>SessionsModal\<close> is rendered only while the session manager is open, and rendering it
  runs \<^verbatim>\<open>sessions.sort((a,b) => b.createdAt - a.createdAt)\<close> on the array it is given:
  the state array itself, sorted in place, newest first; the sort is stable.
\<close>

definition sortSessions :: "Session list \<Rightarrow> Session list" where
  "sortSessions ss = sort_key (\<lambda>s. - int (createdAt s)) ss"

definition renderSessionsModal :: "App \<Rightarrow> App" where
  "renderSessionsModal st =
     (if isSessionsModalOpen st then st\<lparr>sessions := sortSessions (sessions st)\<rparr> else st)"

text \<open>\<^verbatim>\<open>handleDeleteSession\<close>, which only the delete button of the open session manager calls.\<close>

definition handleDeleteSession :: "string \<Rightarrow> App \<Rightarrow> App" where
  "handleDeleteSession sessionId st =
     (let remaining = filter (\<lambda>s. session_id s \<noteq> sessionId) (sessions st) in
      case remaining of
        [] \<Rightarrow> st\<lparr>sessions := [], zero_sessions := None, zero_active_session_id := None,
                 effects := effects st @ [Reload]\<rparr>
      | first # _ \<Rightarrow>
          if sessionId = activeSessionId st
          then st\<lparr>sessions := remaining, activeSessionId := session_id first\<rparr>
          else st\<lparr>sessions := remaining\<rparr>)"

text \<open>
  The second \<^verbatim>\<open>index.tsx\<close> of the repository reads the store in \<^verbatim>\<open>loadSessions\<close>, with a
  \<^verbatim>\<open>try\<close> of its own around \<^verbatim>\<open>JSON.parse\<close>: on an exception it logs, removes both keys
  and answers \<^verbatim>\<open>false\<close>, and \<^verbatim>\<open>initApp\<close> then creates a fresh session.
\<close>

definition loadSessions :: "(string \<Rightarrow> Session list option) \<Rightarrow> App \<Rightarrow> App \<times> bool" where
  "loadSessions parse st =
     (case (zero_sessions st, zero_active_session_id st) of
        (Some savedSessions, Some savedActiveId) \<Rightarrow>
          if savedSessions \<noteq> [] \<and> savedActiveId \<noteq> [] then
            (case parse savedSessions of
               Some loaded \<Rightarrow> (st\<lparr>sessions := loaded, activeSessionId := savedActiveId\<rparr>, True)
             | None \<Rightarrow>
                 (st\<lparr>zero_sessions := None, zero_active_session_id := None,
                     effects := effects st @ [ConsoleError ''Failed to load sessions from localStorage:'']\<rparr>,
                  False))
          else (st, False)
      | _ \<Rightarrow> (st, False))"

section \<open>Notions used to state the properties\<close>

text \<open>
  The sub-heading that a later constraints section contributes to the merged one, the
  merged section that a list of constraints sections amounts to, the titles that the
  chain decomposition keeps, and the number of sections a parsed response holds.
\<close>

definition subheading :: "Section \<Rightarrow> string" where
  "subheading s = ''\<newline>\<newline>'' @ (''**'' @ title s @ ''**\<newline>'') @ content s"

definition mergedConstraints :: "Section list \<Rightarrow> Section option" where
  "mergedConstraints cs =
     (case cs of
        [] \<Rightarrow> None
      | c # rest \<Rightarrow> Some \<lparr>title = ''Constraints'', content = content c @ concat (map subheading rest)\<rparr>)"

definition kept_in_chain :: "Section \<Rightarrow> bool" where
  "kept_in_chain s =
     (title s = ''Task'' \<or> is_constraints_title (title s) \<or> startsWith (title s) ''Refined Answer'')"

definition sectionCount :: "ParsedResponse \<Rightarrow> nat" where
  "sectionCount r =
     (case data r of
        Sections secs \<Rightarrow> length secs
      | ChainD cd \<Rightarrow>
          (case task cd of None \<Rightarrow> 0 | Some _ \<Rightarrow> 1) +
          (case constraints cd of None \<Rightarrow> 0 | Some _ \<Rightarrow> 1) +
          length (refinedAnswers cd))"

text \<open>
  For one turn: the total form of the update of the last message; the sessions of the
  given id all end in the AI message of the given id (\<open>inflight\<close>); an update that keeps
  author and id; two states that differ in messages only, the second still \<open>inflight\<close>
  (\<open>streaming\<close>); the turn passes the guards with the given user text (\<open>runs\<close>); the
  number of calls to the model in an effect log; the turn meets an exception (\<open>fails\<close>);
  and the history a session has once the turn's pair is appended.
\<close>

definition setLast :: "(Message \<Rightarrow> Message) \<Rightarrow> Session \<Rightarrow> Session" where
  "setLast f s =
     s\<lparr>messages := (if author (last (messages s)) = Ai then butlast (messages s) @ [f (last (messages s))]
                     else messages s)\<rparr>"

definition inflight :: "string \<Rightarrow> nat \<Rightarrow> Session list \<Rightarrow> bool" where
  "inflight aid mid ss =
     (\<forall>s\<in>set ss. session_id s = aid \<longrightarrow>
        messages s \<noteq> [] \<and> author (last (messages s)) = Ai \<and> msg_id (last (messages s)) = mid)"

definition keeps_identity :: "(Message \<Rightarrow> Message) \<Rightarrow> bool" where
  "keeps_identity f = (\<forall>m. author (f m) = author m \<and> msg_id (f m) = msg_id m)"

definition streaming :: "string \<Rightarrow> nat \<Rightarrow> App \<Rightarrow> App \<Rightarrow> bool" where
  "streaming aid mid st st' =
     (\<exists>ss. st' = st\<lparr>sessions := ss\<rparr> \<and>
           map session_id ss = map session_id (sessions st) \<and>
           map chatHistory ss = map chatHistory (sessions st) \<and>
           map name ss = map name (sessions st) \<and>
           inflight aid mid ss)"

definition runs :: "App \<Rightarrow> string \<Rightarrow> bool" where
  "runs st umc =
     (\<not> isLoading st \<and> chat st \<and> activeSession st \<noteq> None \<and> userMessageContent st = Some umc \<and>
      (trim umc \<noteq> [] \<or> pending st \<noteq> None))"

definition modelCalls :: "Effect list \<Rightarrow> nat" where
  "modelCalls es =
     length (filter (\<lambda>e. case e of SendMessage _ \<Rightarrow> True | SendMessageStream _ \<Rightarrow> True | _ \<Rightarrow> False) es)"

definition fails :: "App \<Rightarrow> TurnEnv \<Rightarrow> string \<Rightarrow> bool" where
  "fails st env umc =
     (userPartsForHistory st env (finalPromptToServer st umc) = None \<or>
      reply env = CallRejects \<or> (\<exists>chunks. reply env = Streams chunks False))"

definition appendedHistory :: "string \<Rightarrow> Part list \<Rightarrow> string \<Rightarrow> Session \<Rightarrow> Content list" where
  "appendedHistory aid userParts fullResponseText s =
     (if session_id s = aid
      then chatHistory s @ [\<lparr>role = ''user'', parts = userParts\<rparr>,
                            \<lparr>role = ''model'', parts = [TextPart fullResponseText]\<rparr>]
      else chatHistory s)"

text \<open>Sample inputs on which the properties are exercised.\<close>

definition two_constraints_text :: string where
  "two_constraints_text =
     ''[Task] t\<newline>\<newline>[Constraints] c1\<newline>\<newline>[Ack] hi\<newline>\<newline>[STANDING CONSTRAINTS] c2\<newline>\<newline>[Refined Answer 1/5] r1''"

definition greeting :: Message where
  "greeting =
     \<lparr>msg_id = 1, author = Ai, msg_content = ''ZERO Execution Engine initialized. Awaiting your first task.'',
      citations = None, translation = None, isTranslating = None, attachment = None,
      parsedData = None\<rparr>"

definition sampleSession :: "string \<Rightarrow> nat \<Rightarrow> Session" where
  "sampleSession i t =
     \<lparr>session_id = i, name = ''New Session'', messages = [greeting], chatHistory = [], createdAt = t\<rparr>"

definition sampleApp :: App where
  "sampleApp =
     \<lparr>ai = True, chat = True, stage = Awaiting_task, isLoading = False,
      userInput = ''Write a poem'', critique = [], pending = None, chainMode = False,
      sourceCode = None, standingConstraints = [], isSessionsModalOpen = True,
      sessions = [sampleSession ''session_1'' 1, sampleSession ''session_2'' 2,
                  sampleSession ''session_3'' 3],
      activeSessionId = ''session_1'', zero_sessions = None, zero_active_session_id = None,
      effects = []\<rparr>"

definition draftChunk :: Chunk where
  "draftChunk = \<lparr>chunk_text = Some ''[Draft]\<newline>Roses are red'', groundingChunks = None\<rparr>"

definition draftEnv :: TurnEnv where
  "draftEnv = \<lparr>now_user = 100, now_ai = 100, fileData = None, reply = Streams [draftChunk] True\<rparr>"

definition brokenEnv :: TurnEnv where
  "brokenEnv = \<lparr>now_user = 100, now_ai = 100, fileData = None, reply = Streams [draftChunk] False\<rparr>"

definition mountedApp :: App where
  "mountedApp =
     \<lparr>ai = False, chat = False, stage = Initializing, isLoading = True, userInput = [],
      critique = [], pending = None, chainMode = False, sourceCode = None,
      standingConstraints = [], isSessionsModalOpen = False, sessions = [],
      activeSessionId = [], zero_sessions = None, zero_active_session_id = None, effects = []\<rparr>"

definition corruptStore :: App where
  "corruptStore =
     mountedApp\<lparr>zero_sessions := Some ''[{\"id\":'', zero_active_session_id := Some ''session_1''\<rparr>"

definition sampleSource :: SourceCode where
  "sampleSource =
     \<lparr>index_tsx = ''import x;\<newline>const MASTER_PROMPT = `S3CRET`;\<newline>render();'',
      index_css = ''body {}'', index_html = ''<html></html>'', metadata_json = ''{}''\<rparr>"

definition sampleInitEnv :: InitEnv where
  "sampleInitEnv =
     \<lparr>fetched = Some sampleSource, clientOk = True,
      create = \<lparr>answer = Some ''ZERO Execution Engine initialized. Awaiting your first task.'',
                now_id = 5, now_created = 5\<rparr>,
      now_error = 7\<rparr>"

text \<open>A parser that accepts the empty array and throws on every other text.\<close>

definition parseEmptyOnly :: "string \<Rightarrow> Session list option" where
  "parseEmptyOnly raw = (if raw = ''[]'' then Some [] else None)"

definition metaApp :: App where
  "metaApp = sampleApp\<lparr>sourceCode := Some sampleSource, userInput := ''Who are you?''\<rparr>"

section \<open>Properties of the section parser\<close>

lemma foldl_absorb_refined:
  "refinedAnswers (foldl absorb cd xs) =
     refinedAnswers cd @ filter (\<lambda>s. startsWith (title s) ''Refined Answer'') xs"
  by (induction xs arbitrary: cd)
     (auto simp: absorb_def is_constraints_title_def split: option.splits)

lemma foldl_absorb_constraints:
  "constraints (foldl absorb cd xs) =
     (case constraints cd of
        Some c \<Rightarrow> Some (c\<lparr>content := content c @ concat (map subheading (filter (\<lambda>s. is_constraints_title (title s)) xs))\<rparr>)
      | None \<Rightarrow> mergedConstraints (filter (\<lambda>s. is_constraints_title (title s)) xs))"
proof (induction xs arbitrary: cd)
  case Nil
  show ?case by (simp add: mergedConstraints_def split: option.splits)
next
  case (Cons x xs)
  show ?case
    unfolding foldl_Cons Cons.IH
    by (auto simp: absorb_def is_constraints_title_def mergedConstraints_def subheading_def split: option.splits)
qed

lemma foldl_absorb_task:
  "task (foldl absorb cd xs) =
     (case filter (\<lambda>s. title s = ''Task'') xs of [] \<Rightarrow> task cd | _ \<Rightarrow> Some (last (filter (\<lambda>s. title s = ''Task'') xs)))"
  by (induction xs arbitrary: cd)
     (auto simp: absorb_def is_constraints_title_def split: option.splits list.splits)

lemma absorb_dropped: "\<not> kept_in_chain s \<Longrightarrow> absorb cd s = cd"
  by (simp add: absorb_def kept_in_chain_def)

lemma foldl_absorb_filter:
  "foldl absorb cd (filter kept_in_chain xs) = foldl absorb cd xs"
  by (induction xs arbitrary: cd) (simp_all add: absorb_dropped)

lemma parseResponse_chain:
  assumes "isChainMode (parseResponse text)"
  shows "data (parseResponse text) = ChainD (decompose (scan_sections text))"
  using assms by (simp add: parseResponse_def responseSection_def Let_def split: if_splits)


lemma decompose_refined_nonempty:
  assumes "list_ex (\<lambda>s. startsWith (title s) ''Refined Answer'') secs"
  shows "refinedAnswers (decompose secs) \<noteq> []"
proof -
  from assms obtain s where "s \<in> set secs" "startsWith (title s) ''Refined Answer''"
    by (auto simp: list_ex_iff)
  then have "filter (\<lambda>s. startsWith (title s) ''Refined Answer'') secs \<noteq> []"
    by (auto simp: filter_empty_conv)
  then show ?thesis
    by (simp add: decompose_def foldl_absorb_refined)
qed

text \<open>
  A text of one space is not empty, yet its trimmed form is, so neither fallback fires
  and the section list comes back empty.
\<close>

theorem parseResponse_blank_counterexample:
  "'' '' \<noteq> [] \<and> parseResponse '' '' = \<lparr>isChainMode = False, data = Sections []\<rparr>"
  by code_simp

lemma trim_empty_iff: "trim s = [] \<longleftrightarrow> (\<forall>c\<in>set s. is_ws c)"
proof
  assume "trim s = []"
  then have "dropWhile is_ws (rev (dropWhile is_ws s)) = []"
    by (simp add: trim_def)
  then have "\<forall>x\<in>set (rev (dropWhile is_ws s)). is_ws x"
    by (simp only: dropWhile_eq_Nil_conv)
  then have a: "\<forall>x\<in>set (dropWhile is_ws s). is_ws x"
    by simp
  have "dropWhile is_ws s = []"
  proof (rule ccontr)
    assume n: "dropWhile is_ws s \<noteq> []"
    then have "\<not> is_ws (hd (dropWhile is_ws s))"
      by (rule hd_dropWhile)
    moreover from n have "hd (dropWhile is_ws s) \<in> set (dropWhile is_ws s)"
      by (rule hd_in_set)
    ultimately show False
      using a by blast
  qed
  then show "\<forall>c\<in>set s. is_ws c"
    by (simp only: dropWhile_eq_Nil_conv)
next
  assume "\<forall>c\<in>set s. is_ws c"
  then have e: "dropWhile is_ws s = []"
    by (simp only: dropWhile_eq_Nil_conv)
  show "trim s = []"
    unfolding trim_def e by simp
qed

lemma scan_sections_blank:
  assumes "\<forall>c\<in>set s. is_ws c"
  shows "scan_sections s = []"
  using assms
proof (induction s)
  case Nil
  show ?case by simp
next
  case (Cons c cs)
  from Cons.prems have "is_ws c" by simp
  then have "c \<noteq> CHR ''[''"
    by (auto simp: is_ws_def)
  then have "match_at (c # cs) = None"
    by (simp add: match_at_def)
  with Cons show ?case
    by simp
qed

text \<open>
  Claim C2, with blank in place of empty: every text that is not blank (it has a character
  that is not white space) parses to at least one section, and when it has no bracket tag,
  or no section matches the grammar, the result is the single section titled
  \<^verbatim>\<open>Response\<close> that holds the whole text; every text made of white space only parses to
  the empty section list.
\<close>

theorem parseResponse_blank_or_sectioned:
  "(trim text \<noteq> [] \<longrightarrow>
      1 \<le> sectionCount (parseResponse text) \<and>
      (\<not> has_bracket_tag text \<or> scan_sections text = [] \<longrightarrow>
         parseResponse text =
           \<lparr>isChainMode = False, data = Sections [\<lparr>title = ''Response'', content = text\<rparr>]\<rparr>)) \<and>
   ((\<forall>c\<in>set text. is_ws c) \<longrightarrow>
      parseResponse text = \<lparr>isChainMode = False, data = Sections []\<rparr>)"
proof (intro conjI impI)
  assume blank: "\<forall>c\<in>set text. is_ws c"
  then have "trim text = []"
    by (simp add: trim_empty_iff)
  moreover from blank have "scan_sections text = []"
    by (rule scan_sections_blank)
  ultimately show "parseResponse text = \<lparr>isChainMode = False, data = Sections []\<rparr>"
    by (simp add: parseResponse_def)
next
  assume t: "trim text \<noteq> []"
  show "1 \<le> sectionCount (parseResponse text)"
  proof (cases "\<not> has_bracket_tag text \<or> scan_sections text = []")
    case True
    with t have "parseResponse text = responseSection text"
      by (auto simp: parseResponse_def Let_def)
    then show ?thesis
      by (simp add: responseSection_def sectionCount_def)
  next
    case False
    show ?thesis
    proof (cases "list_ex (\<lambda>s. startsWith (title s) ''Refined Answer'') (scan_sections text)")
      case True
      with False have "parseResponse text = \<lparr>isChainMode = True, data = ChainD (decompose (scan_sections text))\<rparr>"
        by (simp add: parseResponse_def Let_def)
      with decompose_refined_nonempty [OF True] show ?thesis
        by (cases "refinedAnswers (decompose (scan_sections text))") (simp_all add: sectionCount_def)
    next
      case noChain: False
      with False have "parseResponse text = \<lparr>isChainMode = False, data = Sections (scan_sections text)\<rparr>"
        by (simp add: parseResponse_def Let_def)
      with False show ?thesis
        by (cases "scan_sections text") (simp_all add: sectionCount_def)
    qed
  qed
next
  assume "trim text \<noteq> []" "\<not> has_bracket_tag text \<or> scan_sections text = []"
  then show "parseResponse text = \<lparr>isChainMode = False, data = Sections [\<lparr>title = ''Response'', content = text\<rparr>]\<rparr>"
    by (auto simp: parseResponse_def responseSection_def Let_def)
qed

theorem parseResponse_blank_or_sectioned_witness:
  "trim ''hello world'' \<noteq> [] \<and> \<not> has_bracket_tag ''hello world'' \<and>
   1 \<le> sectionCount (parseResponse ''hello world'') \<and>
   parseResponse ''hello world'' =
     \<lparr>isChainMode = False, data = Sections [\<lparr>title = ''Response'', content = ''hello world''\<rparr>]\<rparr> \<and>
   trim '' \<newline> '' = [] \<and>
   parseResponse '' \<newline> '' = \<lparr>isChainMode = False, data = Sections []\<rparr>"
proof -
  have t: "trim ''hello world'' \<noteq> []" by code_simp
  have b: "\<not> has_bracket_tag ''hello world''" by code_simp
  have w: "\<forall>c\<in>set '' \<newline> ''. is_ws c" by (simp add: is_ws_def)
  from parseResponse_blank_or_sectioned [of "''hello world''"] t b
  have 1: "1 \<le> sectionCount (parseResponse ''hello world'')"
    and 2: "parseResponse ''hello world'' =
              \<lparr>isChainMode = False, data = Sections [\<lparr>title = ''Response'', content = ''hello world''\<rparr>]\<rparr>"
    by blast+
  from parseResponse_blank_or_sectioned [of "'' \<newline> ''"] w
  have 3: "parseResponse '' \<newline> '' = \<lparr>isChainMode = False, data = Sections []\<rparr>"
    by blast
  have e: "trim '' \<newline> '' = []"
    using w by (simp only: trim_empty_iff)
  show ?thesis
    by (intro conjI) (rule t b 1 2 e 3)+
qed

text \<open>
  Claim C6: when the response is decomposed for chain mode and its sections titled
  \<^verbatim>\<open>Constraints\<close> or \<^verbatim>\<open>STANDING CONSTRAINTS\<close> are \<open>c\<close> followed by \<open>rest\<close>, the decomposition has
  one constraints section, titled \<^verbatim>\<open>Constraints\<close>: its content is the content of \<open>c\<close>,
  followed for each section of \<open>rest\<close>, in order, by a blank line, that section's own title
  in bold on a line, and that section's content.
\<close>

theorem chain_constraints_merged:
  assumes "isChainMode (parseResponse text)"
    and "filter (\<lambda>s. is_constraints_title (title s)) (scan_sections text) = c # rest"
  shows "\<exists>cd. data (parseResponse text) = ChainD cd \<and>
           constraints cd =
             Some \<lparr>title = ''Constraints'',
                   content = content c @
                     concat (map (\<lambda>s. ''\<newline>\<newline>'' @ (''**'' @ title s @ ''**\<newline>'') @ content s) rest)\<rparr>"
proof -
  have "constraints (decompose (scan_sections text)) = mergedConstraints (c # rest)"
    unfolding decompose_def foldl_absorb_constraints assms(2) [symmetric]
    by (simp add: emptyChain_def)
  then show ?thesis
    using parseResponse_chain [OF assms(1)]
    by (simp add: mergedConstraints_def subheading_def [abs_def])
qed

lemma two_constraints_scan:
  "scan_sections two_constraints_text =
     [\<lparr>title = ''Task'', content = ''t''\<rparr>, \<lparr>title = ''Constraints'', content = ''c1''\<rparr>,
      \<lparr>title = ''Ack'', content = ''hi''\<rparr>, \<lparr>title = ''STANDING CONSTRAINTS'', content = ''c2''\<rparr>,
      \<lparr>title = ''Refined Answer 1/5'', content = ''r1''\<rparr>]"
  by code_simp

lemma two_constraints_chain: "isChainMode (parseResponse two_constraints_text)"
  by code_simp

theorem chain_constraints_merged_witness:
  "isChainMode (parseResponse two_constraints_text) \<and>
   (\<exists>cd. data (parseResponse two_constraints_text) = ChainD cd \<and>
      constraints cd = Some \<lparr>title = ''Constraints'', content = ''c1\<newline>\<newline>**STANDING CONSTRAINTS**\<newline>c2''\<rparr>)"
proof -
  have f: "filter (\<lambda>s. is_constraints_title (title s)) (scan_sections two_constraints_text) =
             \<lparr>title = ''Constraints'', content = ''c1''\<rparr> # [\<lparr>title = ''STANDING CONSTRAINTS'', content = ''c2''\<rparr>]"
    unfolding two_constraints_scan by (simp add: is_constraints_title_def)
  from chain_constraints_merged [OF two_constraints_chain f] two_constraints_chain
  show ?thesis by simp
qed


text \<open>
  Claim C9: the chain decomposition is the decomposition of the sections titled
  \<^verbatim>\<open>Task\<close>, \<^verbatim>\<open>Constraints\<close>, \<^verbatim>\<open>STANDING CONSTRAINTS\<close> or \<^verbatim>\<open>Refined Answer...\<close> alone, and a section
  with any other title is neither its task, nor its constraints section, nor one of its
  refined answers.
\<close>

theorem chain_drops_other_sections:
  assumes "isChainMode (parseResponse text)"
  shows "\<exists>cd. data (parseResponse text) = ChainD cd \<and>
           cd = decompose (filter kept_in_chain (scan_sections text)) \<and>
           (\<forall>s. \<not> kept_in_chain s \<longrightarrow>
                task cd \<noteq> Some s \<and> constraints cd \<noteq> Some s \<and> s \<notin> set (refinedAnswers cd))"
proof -
  let ?secs = "scan_sections text"
  let ?cd = "decompose ?secs"
  have a: "?cd = decompose (filter kept_in_chain ?secs)"
    by (simp add: decompose_def foldl_absorb_filter)
  have b: "task ?cd \<noteq> Some s \<and> constraints ?cd \<noteq> Some s \<and> s \<notin> set (refinedAnswers ?cd)"
    if s: "\<not> kept_in_chain s" for s
  proof (intro conjI)
    show "task ?cd \<noteq> Some s"
    proof
      assume t: "task ?cd = Some s"
      let ?ts = "filter (\<lambda>s. title s = ''Task'') ?secs"
      from t have ne: "?ts \<noteq> []" and "s = last ?ts"
        by (auto simp: decompose_def foldl_absorb_task emptyChain_def split: list.splits)
      then have "s \<in> set ?ts"
        using last_in_set by metis
      with s show False
        by (simp add: kept_in_chain_def)
    qed
    show "constraints ?cd \<noteq> Some s"
    proof
      assume "constraints ?cd = Some s"
      then have "title s = ''Constraints''"
        by (auto simp: decompose_def foldl_absorb_constraints emptyChain_def mergedConstraints_def
              split: list.splits)
      with s show False
        by (simp add: kept_in_chain_def is_constraints_title_def)
    qed
    show "s \<notin> set (refinedAnswers ?cd)"
      using s by (auto simp: decompose_def foldl_absorb_refined emptyChain_def kept_in_chain_def)
  qed
  from parseResponse_chain [OF assms] a b show ?thesis
    by blast
qed

theorem chain_drops_other_sections_witness:
  "isChainMode (parseResponse two_constraints_text) \<and>
   \<lparr>title = ''Ack'', content = ''hi''\<rparr> \<in> set (scan_sections two_constraints_text) \<and>
   \<not> kept_in_chain \<lparr>title = ''Ack'', content = ''hi''\<rparr> \<and>
   (\<exists>cd. data (parseResponse two_constraints_text) = ChainD cd \<and>
      task cd \<noteq> Some \<lparr>title = ''Ack'', content = ''hi''\<rparr> \<and>
      constraints cd \<noteq> Some \<lparr>title = ''Ack'', content = ''hi''\<rparr> \<and>
      \<lparr>title = ''Ack'', content = ''hi''\<rparr> \<notin> set (refinedAnswers cd))"
proof -
  have k: "\<not> kept_in_chain \<lparr>title = ''Ack'', content = ''hi''\<rparr>"
    by (simp add: kept_in_chain_def is_constraints_title_def)
  have m: "\<lparr>title = ''Ack'', content = ''hi''\<rparr> \<in> set (scan_sections two_constraints_text)"
    unfolding two_constraints_scan by simp
  from chain_drops_other_sections [OF two_constraints_chain] k m two_constraints_chain
  show ?thesis by blast
qed

section \<open>Properties of the session store\<close>

lemma sortSessions_sorted: "sorted (map (\<lambda>s. - int (createdAt s)) (sortSessions ss))"
  by (simp add: sortSessions_def)

lemma sortSessions_set: "set (sortSessions ss) = set ss"
  by (simp add: sortSessions_def)

lemma sorted_filter_hd_newest:
  assumes "sorted (map (\<lambda>s. - int (createdAt s)) ss)"
    and "filter P ss = first # rest"
    and "t \<in> set (filter P ss)"
  shows "createdAt t \<le> createdAt first"
proof -
  have "sorted (map (\<lambda>s. - int (createdAt s)) (filter P ss))"
    using assms(1) by (rule sorted_filter)
  with assms(2) have "\<forall>u\<in>set rest. - int (createdAt first) \<le> - int (createdAt u)"
    by simp
  with assms(2,3) show ?thesis
    by auto
qed

text \<open>
  Claim C1: the delete button lives in the open session manager, whose rendering has
  sorted the store newest first. Deleting the active session there, while another
  session remains, makes active a remaining session whose \<^verbatim>\<open>createdAt\<close> no remaining
  session exceeds: with distinct timestamps, the most recently created one.
\<close>

theorem delete_active_promotes_newest:
  assumes "isSessionsModalOpen st"
    and "sessionId = activeSessionId st"
    and "\<exists>s\<in>set (sessions st). session_id s \<noteq> sessionId"
  shows "\<exists>s\<in>set (sessions st).
           session_id s \<noteq> sessionId \<and>
           activeSessionId (handleDeleteSession sessionId (renderSessionsModal st)) = session_id s \<and>
           (\<forall>t\<in>set (sessions st). session_id t \<noteq> sessionId \<longrightarrow> createdAt t \<le> createdAt s)"
proof -
  let ?sorted = "sortSessions (sessions st)"
  let ?remaining = "filter (\<lambda>s. session_id s \<noteq> sessionId) ?sorted"
  from assms(3) have "?remaining \<noteq> []"
    by (auto simp: filter_empty_conv sortSessions_set)
  then obtain first rest where r: "?remaining = first # rest"
    by (cases ?remaining) auto
  then have "first \<in> set ?remaining"
    by simp
  then have f: "first \<in> set (sessions st)" "session_id first \<noteq> sessionId"
    by (auto simp: sortSessions_set)
  have a: "activeSessionId (handleDeleteSession sessionId (renderSessionsModal st)) = session_id first"
    using assms(1,2) r by (simp add: handleDeleteSession_def renderSessionsModal_def Let_def)
  have "createdAt t \<le> createdAt first" if "t \<in> set (sessions st)" "session_id t \<noteq> sessionId" for t
  proof -
    from that have "t \<in> set ?remaining"
      by (simp add: sortSessions_set)
    with sortSessions_sorted r show ?thesis
      by (rule sorted_filter_hd_newest)
  qed
  with f a show ?thesis
    by blast
qed

text \<open>
  Claim C10: deleting a session that is not the active one leaves \<^verbatim>\<open>activeSessionId\<close> as it
  was, and the store becomes the old store without the sessions of the deleted id: the
  others are the same records in the same order.
\<close>

theorem delete_inactive_frame:
  assumes "sessionId \<noteq> activeSessionId st"
  shows "activeSessionId (handleDeleteSession sessionId st) = activeSessionId st \<and>
         sessions (handleDeleteSession sessionId st) = filter (\<lambda>s. session_id s \<noteq> sessionId) (sessions st)"
  using assms by (simp add: handleDeleteSession_def Let_def split: list.splits)

text \<open>
  On its own the handler promotes the first remaining session in store order; in a store
  still in creation order that is the oldest one.
\<close>

lemma handleDeleteSession_first_in_order:
  "activeSessionId (handleDeleteSession ''session_1'' sampleApp) = ''session_2''"
  by (simp add: handleDeleteSession_def sampleApp_def sampleSession_def)

lemma sample_sorted:
  "sortSessions (sessions sampleApp) =
     [sampleSession ''session_3'' 3, sampleSession ''session_2'' 2, sampleSession ''session_1'' 1]"
  by (simp add: sortSessions_def sampleApp_def sampleSession_def)

theorem delete_active_promotes_newest_witness:
  "isSessionsModalOpen sampleApp \<and> ''session_1'' = activeSessionId sampleApp \<and>
   activeSessionId (handleDeleteSession ''session_1'' (renderSessionsModal sampleApp)) = ''session_3''"
proof -
  have o: "isSessionsModalOpen sampleApp"
    by (simp add: sampleApp_def)
  have a: "''session_1'' = activeSessionId sampleApp"
    by (simp add: sampleApp_def)
  have r: "\<exists>s\<in>set (sessions sampleApp). session_id s \<noteq> ''session_1''"
    by (simp add: sampleApp_def sampleSession_def)
  from delete_active_promotes_newest [OF o a r]
  obtain s where s: "s \<in> set (sessions sampleApp)"
      "activeSessionId (handleDeleteSession ''session_1'' (renderSessionsModal sampleApp)) = session_id s"
      "\<forall>t\<in>set (sessions sampleApp). session_id t \<noteq> ''session_1'' \<longrightarrow> createdAt t \<le> createdAt s"
    by blast
  from s(3) have "createdAt (sampleSession ''session_3'' 3) \<le> createdAt s"
    by (simp add: sampleApp_def sampleSession_def)
  with s(1) have "session_id s = ''session_3''"
    by (auto simp: sampleApp_def sampleSession_def)
  with s(2) o a show ?thesis
    by simp
qed

theorem delete_inactive_frame_witness:
  "''session_2'' \<noteq> activeSessionId sampleApp \<and>
   activeSessionId (handleDeleteSession ''session_2'' sampleApp) = ''session_1'' \<and>
   sessions (handleDeleteSession ''session_2'' sampleApp) =
     [sampleSession ''session_1'' 1, sampleSession ''session_3'' 3]"
proof -
  have a: "''session_2'' \<noteq> activeSessionId sampleApp"
    by (simp add: sampleApp_def)
  from delete_inactive_frame [OF a] a show ?thesis
    by (simp add: sampleApp_def sampleSession_def)
qed

section \<open>Properties of a turn\<close>

lemma withLastMessage_Some:
  "messages s \<noteq> [] \<Longrightarrow> withLastMessage f s = Some (setLast f s)"
  by (cases "messages s") (simp_all add: withLastMessage_def setLast_def Let_def)

lemma updateSessions_inflight:
  assumes "inflight aid mid ss"
  shows "updateSessions aid (withLastMessage f) ss =
           Some (map (\<lambda>s. if session_id s = aid then setLast f s else s) ss)"
  using assms
proof (induction ss)
  case Nil
  show ?case by simp
next
  case (Cons s ss)
  from Cons.prems have "inflight aid mid ss"
    by (simp add: inflight_def)
  then have ih: "updateSessions aid (withLastMessage f) ss =
                   Some (map (\<lambda>s. if session_id s = aid then setLast f s else s) ss)"
    by (rule Cons.IH)
  show ?case
  proof (cases "session_id s = aid")
    case True
    with Cons.prems have "messages s \<noteq> []"
      by (simp add: inflight_def)
    then have "withLastMessage f s = Some (setLast f s)"
      by (rule withLastMessage_Some)
    with True ih show ?thesis by simp
  next
    case False
    with ih show ?thesis by simp
  qed
qed

lemma setLast_fields [simp]:
  "session_id (setLast f s) = session_id s"
  "name (setLast f s) = name s"
  "chatHistory (setLast f s) = chatHistory s"
  "createdAt (setLast f s) = createdAt s"
  unfolding setLast_def by simp_all

lemma setLast_last:
  assumes "messages s \<noteq> []" "author (last (messages s)) = Ai"
  shows "messages (setLast f s) \<noteq> [] \<and> last (messages (setLast f s)) = f (last (messages s))"
  using assms by (simp add: setLast_def)

lemma inflight_setLast:
  assumes "inflight aid mid ss" "keeps_identity f"
  shows "inflight aid mid (map (\<lambda>s. if session_id s = aid then setLast f s else s) ss)"
  unfolding inflight_def
proof (intro ballI impI)
  fix s'
  assume m: "s' \<in> set (map (\<lambda>s. if session_id s = aid then setLast f s else s) ss)"
    and i: "session_id s' = aid"
  from m obtain s where s: "s \<in> set ss" "s' = (if session_id s = aid then setLast f s else s)"
    by auto
  with i have sa: "session_id s = aid" and s': "s' = setLast f s"
    by (auto split: if_splits)
  from assms(1) s(1) sa have ms: "messages s \<noteq> []" "author (last (messages s)) = Ai"
      "msg_id (last (messages s)) = mid"
    by (auto simp: inflight_def)
  from setLast_last [OF ms(1,2), of f] assms(2) ms(2,3)
  show "messages s' \<noteq> [] \<and> author (last (messages s')) = Ai \<and> msg_id (last (messages s')) = mid"
    unfolding s' keeps_identity_def by simp
qed

lemma inflight_last_content:
  assumes "inflight aid mid ss"
    and "s' \<in> set (map (\<lambda>s. if session_id s = aid then setLast f s else s) ss)"
    and "session_id s' = aid"
  shows "\<exists>s\<in>set ss. session_id s = aid \<and> last (messages s') = f (last (messages s))"
proof -
  from assms(2) obtain s where s: "s \<in> set ss" "s' = (if session_id s = aid then setLast f s else s)"
    by auto
  with assms(3) have sa: "session_id s = aid" and s': "s' = setLast f s"
    by (auto split: if_splits)
  from assms(1) s(1) sa have ms: "messages s \<noteq> []" "author (last (messages s)) = Ai"
    by (auto simp: inflight_def)
  from setLast_last [OF ms, of f] s(1) sa show ?thesis
    unfolding s' by blast
qed

lemma streaming_refl: "inflight aid mid (sessions st) \<Longrightarrow> streaming aid mid st st"
  unfolding streaming_def by (rule exI [of _ "sessions st"]) simp

lemma streaming_trans:
  assumes "streaming aid mid st st'" "streaming aid mid st' st''"
  shows "streaming aid mid st st''"
proof -
  from assms(1) obtain ss where 1: "st' = st\<lparr>sessions := ss\<rparr>"
      "map session_id ss = map session_id (sessions st)"
      "map chatHistory ss = map chatHistory (sessions st)"
      "map name ss = map name (sessions st)"
    unfolding streaming_def by blast
  from assms(2) obtain ss' where 2: "st'' = st'\<lparr>sessions := ss'\<rparr>"
      "map session_id ss' = map session_id (sessions st')"
      "map chatHistory ss' = map chatHistory (sessions st')"
      "map name ss' = map name (sessions st')"
      "inflight aid mid ss'"
    unfolding streaming_def by blast
  show ?thesis
    unfolding streaming_def
    by (rule exI [of _ ss']) (use 1 2 in simp)
qed

lemma map_setLast_frame:
  "map session_id (map (\<lambda>s. if session_id s = aid then setLast f s else s) ss) = map session_id ss"
  "map chatHistory (map (\<lambda>s. if session_id s = aid then setLast f s else s) ss) = map chatHistory ss"
  "map name (map (\<lambda>s. if session_id s = aid then setLast f s else s) ss) = map name ss"
  by (induction ss) simp_all

lemma onChunk_streaming:
  assumes "inflight aid mid (sessions st)"
  shows "\<exists>st'. onChunk aid ch (st, full, cits) =
                  Some (st', full @ chunkText ch,
                        (case groundingChunks ch of Some newChunks \<Rightarrow> webCitations newChunks | None \<Rightarrow> cits))
               \<and> streaming aid mid st st'"
proof -
  let ?f = "\<lambda>m. m\<lparr>msg_content := full @ chunkText ch,
                    citations := Some (case groundingChunks ch of Some newChunks \<Rightarrow> webCitations newChunks | None \<Rightarrow> cits),
                    parsedData := Some (parseResponse (full @ chunkText ch))\<rparr>"
  let ?ss = "map (\<lambda>s. if session_id s = aid then setLast ?f s else s) (sessions st)"
  have k: "keeps_identity ?f"
    by (simp add: keeps_identity_def)
  have u: "updateSessions aid (withLastMessage ?f) (sessions st) = Some ?ss"
    using assms by (rule updateSessions_inflight)
  have "onChunk aid ch (st, full, cits) =
          Some (st\<lparr>sessions := ?ss\<rparr>, full @ chunkText ch,
                (case groundingChunks ch of Some newChunks \<Rightarrow> webCitations newChunks | None \<Rightarrow> cits))"
    unfolding onChunk_def by (simp add: Let_def u)
  moreover have "streaming aid mid st (st\<lparr>sessions := ?ss\<rparr>)"
    unfolding streaming_def
    by (rule exI [of _ ?ss]) (simp add: map_setLast_frame inflight_setLast [OF assms k])
  ultimately show ?thesis
    by blast
qed

lemma streaming_inflight: "streaming aid mid st st' \<Longrightarrow> inflight aid mid (sessions st')"
  by (auto simp: streaming_def)

lemma streamTrace_streaming:
  assumes "inflight aid mid (sessions st)"
  shows "\<exists>tr. streamTrace aid chunks (st, full, cits) = Some tr \<and>
              (\<forall>acc\<in>set tr. streaming aid mid st (fst acc)) \<and>
              fst (snd (last ((st, full, cits) # tr))) = full @ concat (map chunkText chunks)"
  using assms
proof (induction chunks arbitrary: st full cits)
  case Nil
  show ?case by simp
next
  case (Cons ch chunks)
  from onChunk_streaming [OF Cons.prems, of ch full cits]
  obtain st' cits' where o: "onChunk aid ch (st, full, cits) = Some (st', full @ chunkText ch, cits')"
      and s: "streaming aid mid st st'"
    by blast
  from s have "inflight aid mid (sessions st')"
    by (rule streaming_inflight)
  from Cons.IH [OF this, of "full @ chunkText ch" cits']
  obtain tr where tr: "streamTrace aid chunks (st', full @ chunkText ch, cits') = Some tr"
      and all: "\<forall>acc\<in>set tr. streaming aid mid st' (fst acc)"
      and fin: "fst (snd (last ((st', full @ chunkText ch, cits') # tr))) =
                  (full @ chunkText ch) @ concat (map chunkText chunks)"
    by blast
  let ?tr = "(st', full @ chunkText ch, cits') # tr"
  have 1: "streamTrace aid (ch # chunks) (st, full, cits) = Some ?tr"
    by (simp add: o tr)
  have 2: "\<forall>acc\<in>set ?tr. streaming aid mid st (fst acc)"
    using s all by (auto intro: streaming_trans)
  have 3: "fst (snd (last ((st, full, cits) # ?tr))) = full @ concat (map chunkText (ch # chunks))"
    using fin by simp
  from 1 2 3 show ?case
    by blast
qed

lemma activeSession_in_store:
  "activeSession st \<noteq> None \<Longrightarrow> \<exists>s\<in>set (sessions st). session_id s = activeSessionId st"
  by (auto simp: activeSession_def find_None_iff)

lemma beginTurn_fields:
  "map session_id (sessions (beginTurn st env umc)) = map session_id (sessions st)"
  "map chatHistory (sessions (beginTurn st env umc)) = map chatHistory (sessions st)"
  "map name (sessions (beginTurn st env umc)) = map name (sessions st)"
  "effects (beginTurn st env umc) = effects st"
  "stage (beginTurn st env umc) = Processing"
  unfolding beginTurn_def by (simp_all add: comp_def)

lemma beginTurn_inflight:
  "inflight (activeSessionId st) (now_ai env + 1) (sessions (beginTurn st env umc))"
  unfolding beginTurn_def inflight_def by (auto simp: aiMessagePlaceholder_def)

lemma failTurn_inflight:
  assumes "inflight aid mid (sessions st)"
  shows "\<exists>ss. failTurn aid st =
                 Some (st\<lparr>sessions := ss, stage := Awaiting_task,
                          effects := effects st @ [ConsoleError ''Message sending failed:'']\<rparr>) \<and>
              map session_id ss = map session_id (sessions st) \<and>
              map chatHistory ss = map chatHistory (sessions st) \<and>
              (\<forall>s\<in>set ss. session_id s = aid \<longrightarrow>
                  messages s \<noteq> [] \<and> author (last (messages s)) = Ai \<and>
                  msg_id (last (messages s)) = mid \<and> msg_content (last (messages s)) = errorSection)"
proof -
  let ?f = "\<lambda>m. m\<lparr>msg_content := errorSection\<rparr>"
  let ?ss = "map (\<lambda>s. if session_id s = aid then setLast ?f s else s) (sessions st)"
  have k: "keeps_identity ?f"
    by (simp add: keeps_identity_def)
  have u: "updateSessions aid (withLastMessage ?f) (sessions st) = Some ?ss"
    using assms by (rule updateSessions_inflight)
  have 1: "failTurn aid st =
             Some (st\<lparr>sessions := ?ss, stage := Awaiting_task,
                      effects := effects st @ [ConsoleError ''Message sending failed:'']\<rparr>)"
    unfolding failTurn_def by (simp add: u)
  have 2: "inflight aid mid ?ss"
    using assms k by (rule inflight_setLast)
  have 3: "msg_content (last (messages s')) = errorSection"
    if "s' \<in> set ?ss" "session_id s' = aid" for s'
    using inflight_last_content [OF assms that] by auto
  have 4: "\<forall>s\<in>set ?ss. session_id s = aid \<longrightarrow>
             messages s \<noteq> [] \<and> author (last (messages s)) = Ai \<and>
             msg_id (last (messages s)) = mid \<and> msg_content (last (messages s)) = errorSection"
    using 2 3 unfolding inflight_def by blast
  have 5: "map session_id ?ss = map session_id (sessions st)"
    "map chatHistory ?ss = map chatHistory (sessions st)"
    by (rule map_setLast_frame)+
  from 1 4 5 show ?thesis
    by blast
qed

lemma modelCalls_append [simp]: "modelCalls (xs @ ys) = modelCalls xs + modelCalls ys"
  by (simp add: modelCalls_def)

lemma modelCalls_Cons [simp]:
  "modelCalls [] = 0"
  "modelCalls (ConsoleError e # es) = modelCalls es"
  "modelCalls (Reload # es) = modelCalls es"
  "modelCalls (SendMessageStream ps # es) = Suc (modelCalls es)"
  "modelCalls (SendMessage p # es) = Suc (modelCalls es)"
  by (simp_all add: modelCalls_def)

lemma streaming_fields:
  assumes "streaming aid mid st st'"
  shows "map chatHistory (sessions st') = map chatHistory (sessions st)"
    and "map session_id (sessions st') = map session_id (sessions st)"
    and "effects st' = effects st" and "isLoading st' = isLoading st"
  using assms by (auto simp: streaming_def)

lemma appendedHistory_cong:
  assumes "map session_id ss' = map session_id ss" "map chatHistory ss' = map chatHistory ss"
  shows "map (appendedHistory aid ps full) ss' = map (appendedHistory aid ps full) ss"
proof -
  have z: "map (appendedHistory aid ps full) xs =
             map (\<lambda>p. if fst p = aid
                       then snd p @ [\<lparr>role = ''user'', parts = ps\<rparr>,
                                     \<lparr>role = ''model'', parts = [TextPart full]\<rparr>]
                       else snd p)
               (zip (map session_id xs) (map chatHistory xs))" for xs
    by (induction xs) (simp_all add: appendedHistory_def)
  show ?thesis
    unfolding z assms ..
qed

lemma completeTurn_fields:
  "map chatHistory (sessions (completeTurn st0 umc ps (st, full, cits))) =
     map (appendedHistory (activeSessionId st0) ps full) (sessions st)"
  "stage (completeTurn st0 umc ps (st, full, cits)) =
     nextStage (isMetaQuestion (stage st0) umc) (chainMode st0) full"
  "effects (completeTurn st0 umc ps (st, full, cits)) = effects st"
  unfolding completeTurn_def
  by (simp_all add: comp_def completeSession_def appendedHistory_def Let_def cong: if_cong)

lemma tryTurn_failure:
  assumes i: "inflight (activeSessionId st0) mid (sessions st1)" and f: "fails st0 env umc"
  shows "\<exists>ms fin. tryTurn st0 st1 env umc = Some (ms, fin) \<and>
           (\<forall>m\<in>set ms. map chatHistory (sessions m) = map chatHistory (sessions st1)) \<and>
           stage fin = Awaiting_task \<and>
           map session_id (sessions fin) = map session_id (sessions st1) \<and>
           map chatHistory (sessions fin) = map chatHistory (sessions st1) \<and>
           (\<forall>s\<in>set (sessions fin). session_id s = activeSessionId st0 \<longrightarrow>
               messages s \<noteq> [] \<and> author (last (messages s)) = Ai \<and>
               msg_id (last (messages s)) = mid \<and> msg_content (last (messages s)) = errorSection) \<and>
           modelCalls (effects fin) \<le> modelCalls (effects st1) + 1"
proof (cases "userPartsForHistory st0 env (finalPromptToServer st0 umc)")
  case None
  from failTurn_inflight [OF i] obtain ss where
      ft: "failTurn (activeSessionId st0) st1 =
             Some (st1\<lparr>sessions := ss, stage := Awaiting_task,
                       effects := effects st1 @ [ConsoleError ''Message sending failed:'']\<rparr>)"
      and ss: "map session_id ss = map session_id (sessions st1)"
        "map chatHistory ss = map chatHistory (sessions st1)"
        "\<forall>s\<in>set ss. session_id s = activeSessionId st0 \<longrightarrow>
            messages s \<noteq> [] \<and> author (last (messages s)) = Ai \<and>
            msg_id (last (messages s)) = mid \<and> msg_content (last (messages s)) = errorSection"
    by blast
  have "tryTurn st0 st1 env umc =
          Some ([], st1\<lparr>sessions := ss, stage := Awaiting_task,
                        effects := effects st1 @ [ConsoleError ''Message sending failed:'']\<rparr>)"
    unfolding tryTurn_def by (simp add: None ft)
  with ss show ?thesis
    by simp
next
  case (Some ps)
  let ?st2 = "st1\<lparr>effects := effects st1 @ [SendMessageStream ps]\<rparr>"
  have i2: "inflight (activeSessionId st0) mid (sessions ?st2)"
    using i by simp
  show ?thesis
  proof (cases "reply env")
    case CallRejects
    from failTurn_inflight [OF i2] obtain ss where
        ft: "failTurn (activeSessionId st0) ?st2 =
               Some (?st2\<lparr>sessions := ss, stage := Awaiting_task,
                          effects := effects ?st2 @ [ConsoleError ''Message sending failed:'']\<rparr>)"
        and ss: "map session_id ss = map session_id (sessions ?st2)"
          "map chatHistory ss = map chatHistory (sessions ?st2)"
          "\<forall>s\<in>set ss. session_id s = activeSessionId st0 \<longrightarrow>
              messages s \<noteq> [] \<and> author (last (messages s)) = Ai \<and>
              msg_id (last (messages s)) = mid \<and> msg_content (last (messages s)) = errorSection"
      by blast
    have "tryTurn st0 st1 env umc =
            Some ([], ?st2\<lparr>sessions := ss, stage := Awaiting_task,
                            effects := effects ?st2 @ [ConsoleError ''Message sending failed:'']\<rparr>)"
      unfolding tryTurn_def by (simp add: Some CallRejects ft)
    with ss show ?thesis
      by simp
  next
    case (Streams chunks ok)
    with f Some have ok: "\<not> ok"
      by (auto simp: fails_def)
    from streamTrace_streaming [OF i2, of chunks "[]" "[]"] obtain tr where
        tr: "streamTrace (activeSessionId st0) chunks (?st2, [], []) = Some tr"
        and all: "\<forall>acc\<in>set tr. streaming (activeSessionId st0) mid ?st2 (fst acc)"
      by blast
    let ?acc = "last ((?st2, [], []) # tr)"
    have sl: "streaming (activeSessionId st0) mid ?st2 (fst ?acc)"
    proof (cases "tr = []")
      case True
      with i2 show ?thesis by (simp add: streaming_refl)
    next
      case False
      then have "?acc \<in> set tr" by simp
      with all show ?thesis by blast
    qed
    from failTurn_inflight [OF streaming_inflight [OF sl]] obtain ss where
        ft: "failTurn (activeSessionId st0) (fst ?acc) =
               Some ((fst ?acc)\<lparr>sessions := ss, stage := Awaiting_task,
                          effects := effects (fst ?acc) @ [ConsoleError ''Message sending failed:'']\<rparr>)"
        and ss: "map session_id ss = map session_id (sessions (fst ?acc))"
          "map chatHistory ss = map chatHistory (sessions (fst ?acc))"
          "\<forall>s\<in>set ss. session_id s = activeSessionId st0 \<longrightarrow>
              messages s \<noteq> [] \<and> author (last (messages s)) = Ai \<and>
              msg_id (last (messages s)) = mid \<and> msg_content (last (messages s)) = errorSection"
      by blast
    have t: "tryTurn st0 st1 env umc =
            Some (map fst tr, (fst ?acc)\<lparr>sessions := ss, stage := Awaiting_task,
                          effects := effects (fst ?acc) @ [ConsoleError ''Message sending failed:'']\<rparr>)"
      unfolding tryTurn_def by (simp add: Some Streams ok tr ft Let_def del: last.simps)
    have m: "\<forall>m\<in>set (map fst tr). map chatHistory (sessions m) = map chatHistory (sessions st1)"
      using all streaming_fields(1) [of "activeSessionId st0" mid ?st2] by auto
    from streaming_fields [OF sl] ss t m show ?thesis
      by simp
  qed
qed

lemma tryTurn_success:
  assumes i: "inflight (activeSessionId st0) mid (sessions st1)"
    and p: "userPartsForHistory st0 env (finalPromptToServer st0 umc) = Some ps"
    and r: "reply env = Streams chunks True"
  shows "\<exists>ms fin. tryTurn st0 st1 env umc = Some (ms, fin) \<and>
           (\<forall>m\<in>set ms. map chatHistory (sessions m) = map chatHistory (sessions st1)) \<and>
           stage fin = nextStage (isMetaQuestion (stage st0) umc) (chainMode st0) (concat (map chunkText chunks)) \<and>
           map chatHistory (sessions fin) =
             map (appendedHistory (activeSessionId st0) ps (concat (map chunkText chunks))) (sessions st1)"
proof -
  let ?st2 = "st1\<lparr>effects := effects st1 @ [SendMessageStream ps]\<rparr>"
  have i2: "inflight (activeSessionId st0) mid (sessions ?st2)"
    using i by simp
  from streamTrace_streaming [OF i2, of chunks "[]" "[]"] obtain tr where
      tr: "streamTrace (activeSessionId st0) chunks (?st2, [], []) = Some tr"
      and all: "\<forall>acc\<in>set tr. streaming (activeSessionId st0) mid ?st2 (fst acc)"
      and full: "fst (snd (last ((?st2, [], []) # tr))) = concat (map chunkText chunks)"
    by auto
  let ?acc = "last ((?st2, [], []) # tr)"
  obtain st' cits where acc: "?acc = (st', concat (map chunkText chunks), cits)"
    using full by (cases ?acc) auto
  have sl: "streaming (activeSessionId st0) mid ?st2 st'"
  proof (cases "tr = []")
    case True
    with acc have e: "st' = ?st2" by simp
    show ?thesis unfolding e by (rule streaming_refl [OF i2])
  next
    case False
    then have "?acc \<in> set tr" by simp
    with all acc show ?thesis by force
  qed
  have t: "tryTurn st0 st1 env umc =
             Some (map fst tr, completeTurn st0 umc ps (st', concat (map chunkText chunks), cits))"
    unfolding tryTurn_def by (simp add: p r tr Let_def acc del: last.simps)
  have m: "\<forall>m\<in>set (map fst tr). map chatHistory (sessions m) = map chatHistory (sessions st1)"
    using all streaming_fields(1) [of "activeSessionId st0" mid ?st2] by auto
  have h: "map (appendedHistory (activeSessionId st0) ps (concat (map chunkText chunks))) (sessions st') =
           map (appendedHistory (activeSessionId st0) ps (concat (map chunkText chunks))) (sessions st1)"
    using streaming_fields(1,2) [OF sl] by (intro appendedHistory_cong) simp_all
  from t m h show ?thesis
    by (simp add: completeTurn_fields)
qed

lemma turnStates_runs:
  assumes "runs st umc"
  shows "turnStates st env =
           (case tryTurn st (beginTurn st env umc) env umc of
              None \<Rightarrow> None
            | Some (ms, fin) \<Rightarrow> Some (beginTurn st env umc # ms, fin\<lparr>isLoading := False\<rparr>))"
  using assms unfolding runs_def turnStates_def by (auto simp: Let_def)

lemma sample_runs: "runs sampleApp ''Write a poem''"
  by (simp add: runs_def sampleApp_def sampleSession_def activeSession_def userMessageContent_def
        trim_def is_ws_def)

lemma sample_parts:
  "userPartsForHistory sampleApp env (finalPromptToServer sampleApp ''Write a poem'') =
     Some [TextPart ''[MODE: NORMAL]\<newline>Write a poem'']"
  by (simp add: userPartsForHistory_def finalPromptToServer_def framedPrompt_def sampleApp_def)

lemma sample_not_meta: "\<not> isMetaQuestion (stage sampleApp) ''Write a poem''"
  by (simp add: isMetaQuestion_def metaTest_def metaPhrases_def lower_ascii_def sampleApp_def)


text \<open>
  Claim C4: a turn that passes the guards, reads its attachment if it has one, and whose
  stream ends without an exception returns a state, and the stage of that state is
  \<^verbatim>\<open>awaiting_critique\<close> when the turn is not a meta-question, chain mode is off and the
  full response text contains \<^verbatim>\<open>[Draft]\<close> but not \<^verbatim>\<open>[Final Output]\<close>; in every other case it
  is \<^verbatim>\<open>awaiting_task\<close>.
\<close>

theorem completed_turn_stage:
  assumes "runs st umc"
    and "userPartsForHistory st env (finalPromptToServer st umc) = Some userParts"
    and "reply env = Streams chunks True"
  shows "\<exists>st'. handleSendMessage st env = Some st' \<and>
           stage st' =
             (if \<not> isMetaQuestion (stage st) umc \<and> \<not> chainMode st \<and>
                 includes_str (concat (map chunkText chunks)) ''[Draft]'' \<and>
                 \<not> includes_str (concat (map chunkText chunks)) ''[Final Output]''
              then Awaiting_critique else Awaiting_task)"
proof -
  from tryTurn_success [OF beginTurn_inflight assms(2,3)]
  obtain ms fin where t: "tryTurn st (beginTurn st env umc) env umc = Some (ms, fin)"
    and s: "stage fin = nextStage (isMetaQuestion (stage st) umc) (chainMode st) (concat (map chunkText chunks))"
    by blast
  have "handleSendMessage st env = Some (fin\<lparr>isLoading := False\<rparr>)"
    unfolding handleSendMessage_def turnStates_runs [OF assms(1)] by (simp add: t)
  with s show ?thesis
    by (auto simp: nextStage_def)
qed

theorem completed_turn_stage_witness:
  "runs sampleApp ''Write a poem'' \<and> reply draftEnv = Streams [draftChunk] True \<and>
   (\<exists>st'. handleSendMessage sampleApp draftEnv = Some st' \<and> stage st' = Awaiting_critique)"
proof -
  have r: "reply draftEnv = Streams [draftChunk] True"
    by (simp add: draftEnv_def)
  have c: "includes_str (concat (map chunkText [draftChunk])) ''[Draft]''"
    "\<not> includes_str (concat (map chunkText [draftChunk])) ''[Final Output]''"
    by (simp_all add: chunkText_def draftChunk_def)
  have m: "\<not> chainMode sampleApp"
    by (simp add: sampleApp_def)
  from completed_turn_stage [OF sample_runs sample_parts r] sample_not_meta c m sample_runs r
  show ?thesis
    by simp
qed

text \<open>
  What the \<^verbatim>\<open>catch\<close> block does restore: when a turn that passes the guards meets an
  exception (the file read or the model call rejects, or the stream throws after any number
  of chunks), it still returns a state; there the stage is \<^verbatim>\<open>awaiting_task\<close> and \<^verbatim>\<open>isLoading\<close>
  is off, the active session ends in the turn's AI message with the error section in its
  \<^verbatim>\<open>content\<close> field, and at most one call to the model has been made: nothing is retried.
\<close>

lemma failed_turn_recovers:
  assumes "runs st umc" and "fails st env umc"
  shows "\<exists>st'. handleSendMessage st env = Some st' \<and>
           stage st' = Awaiting_task \<and> \<not> isLoading st' \<and>
           (\<exists>s\<in>set (sessions st'). session_id s = activeSessionId st) \<and>
           (\<forall>s\<in>set (sessions st'). session_id s = activeSessionId st \<longrightarrow>
               messages s \<noteq> [] \<and> author (last (messages s)) = Ai \<and>
               msg_id (last (messages s)) = now_ai env + 1 \<and>
               msg_content (last (messages s)) = errorSection) \<and>
           modelCalls (effects st') \<le> modelCalls (effects st) + 1"
proof -
  from tryTurn_failure [OF beginTurn_inflight assms(2)]
  obtain ms fin where t: "tryTurn st (beginTurn st env umc) env umc = Some (ms, fin)"
    and f: "stage fin = Awaiting_task"
      "map session_id (sessions fin) = map session_id (sessions (beginTurn st env umc))"
      "\<forall>s\<in>set (sessions fin). session_id s = activeSessionId st \<longrightarrow>
          messages s \<noteq> [] \<and> author (last (messages s)) = Ai \<and>
          msg_id (last (messages s)) = now_ai env + 1 \<and> msg_content (last (messages s)) = errorSection"
      "modelCalls (effects fin) \<le> modelCalls (effects (beginTurn st env umc)) + 1"
    by blast
  have h: "handleSendMessage st env = Some (fin\<lparr>isLoading := False\<rparr>)"
    unfolding handleSendMessage_def turnStates_runs [OF assms(1)] by (simp add: t)
  from assms(1) have "activeSession st \<noteq> None"
    by (simp add: runs_def)
  then obtain s0 where "s0 \<in> set (sessions st)" "session_id s0 = activeSessionId st"
    using activeSession_in_store by blast
  then have "activeSessionId st \<in> set (map session_id (sessions st))"
    by (metis image_eqI set_map)
  then have "activeSessionId st \<in> set (map session_id (sessions fin))"
    by (simp only: f(2) beginTurn_fields)
  then have e: "\<exists>s\<in>set (sessions fin). session_id s = activeSessionId st"
    by auto
  from h f e show ?thesis
    by (simp add: beginTurn_fields)
qed

text \<open>
  Claim C5 asks that the in-flight message be replaced with the error section. In the turn
  below the stream delivers one chunk, a draft, and then throws. The stage returns to
  \<^verbatim>\<open>awaiting_task\<close> and the \<^verbatim>\<open>content\<close> field holds the error section, but \<^verbatim>\<open>parsedData\<close> is
  still what the chunk left, and that is what the message block renders: the draft, not
  the section titled \<^verbatim>\<open>Error\<close> that the content parses to.
\<close>

theorem failed_stream_still_shows_draft:
  "map_option stage (handleSendMessage sampleApp brokenEnv) = Some Awaiting_task \<and>
   map_option (\<lambda>st. map (\<lambda>s. msg_content (last (messages s)))
                      (filter (\<lambda>s. session_id s = ''session_1'') (sessions st)))
     (handleSendMessage sampleApp brokenEnv) = Some [errorSection] \<and>
   map_option (\<lambda>st. map (\<lambda>s. renderedResponse (last (messages s)))
                      (filter (\<lambda>s. session_id s = ''session_1'') (sessions st)))
     (handleSendMessage sampleApp brokenEnv) =
     Some [\<lparr>isChainMode = False, data = Sections [\<lparr>title = ''Draft'', content = ''Roses are red''\<rparr>]\<rparr>] \<and>
   data (parseResponse errorSection) =
     Sections [\<lparr>title = ''Error'', content = ''An unexpected error occurred while processing your request. Please try again. If the issue continues, please simplify your prompt or check the developer console for technical details.''\<rparr>]"
  by code_simp

text \<open>
  Claim C8: through every state of a turn before its last (after the placeholder is
  added and after each chunk) all sessions keep the \<^verbatim>\<open>chatHistory\<close> they had. In the state
  the turn ends in, the active session's history has gained the user entry and the model
  entry with the full response exactly when the stream ended without an exception; after
  any exception all histories are as before the turn.
\<close>

theorem history_appended_only_on_success:
  assumes "runs st umc"
  shows "\<exists>ms fin. turnStates st env = Some (ms, fin) \<and>
           (\<forall>m\<in>set ms. map chatHistory (sessions m) = map chatHistory (sessions st)) \<and>
           map chatHistory (sessions fin) =
             (case (userPartsForHistory st env (finalPromptToServer st umc), reply env) of
                (Some userParts, Streams chunks True) \<Rightarrow>
                  map (\<lambda>s. if session_id s = activeSessionId st
                            then chatHistory s @
                                   [\<lparr>role = ''user'', parts = userParts\<rparr>,
                                    \<lparr>role = ''model'', parts = [TextPart (concat (map chunkText chunks))]\<rparr>]
                            else chatHistory s)
                      (sessions st)
              | _ \<Rightarrow> map chatHistory (sessions st))"
proof (cases "fails st env umc")
  case True
  from tryTurn_failure [OF beginTurn_inflight True]
  obtain ms fin where t: "tryTurn st (beginTurn st env umc) env umc = Some (ms, fin)"
    and m: "\<forall>m\<in>set ms. map chatHistory (sessions m) = map chatHistory (sessions (beginTurn st env umc))"
    and f: "map chatHistory (sessions fin) = map chatHistory (sessions (beginTurn st env umc))"
    by blast
  have ts: "turnStates st env = Some (beginTurn st env umc # ms, fin\<lparr>isLoading := False\<rparr>)"
    unfolding turnStates_runs [OF assms] by (simp add: t)
  have c: "(case (userPartsForHistory st env (finalPromptToServer st umc), reply env) of
              (Some userParts, Streams chunks True) \<Rightarrow>
                map (\<lambda>s. if session_id s = activeSessionId st
                          then chatHistory s @
                                 [\<lparr>role = ''user'', parts = userParts\<rparr>,
                                  \<lparr>role = ''model'', parts = [TextPart (concat (map chunkText chunks))]\<rparr>]
                          else chatHistory s)
                    (sessions st)
            | _ \<Rightarrow> map chatHistory (sessions st)) = map chatHistory (sessions st)"
    using True by (auto simp: fails_def split: option.splits ModelReply.splits)
  show ?thesis
    unfolding c using ts m f by (simp add: beginTurn_fields)
next
  case False
  then obtain ps chunks where p: "userPartsForHistory st env (finalPromptToServer st umc) = Some ps"
    and r: "reply env = Streams chunks True"
    unfolding fails_def by (cases "reply env") auto
  from tryTurn_success [OF beginTurn_inflight p r]
  obtain ms fin where t: "tryTurn st (beginTurn st env umc) env umc = Some (ms, fin)"
    and m: "\<forall>m\<in>set ms. map chatHistory (sessions m) = map chatHistory (sessions (beginTurn st env umc))"
    and f: "map chatHistory (sessions fin) =
              map (appendedHistory (activeSessionId st) ps (concat (map chunkText chunks)))
                  (sessions (beginTurn st env umc))"
    by blast
  have ts: "turnStates st env = Some (beginTurn st env umc # ms, fin\<lparr>isLoading := False\<rparr>)"
    unfolding turnStates_runs [OF assms] by (simp add: t)
  have a: "map (appendedHistory (activeSessionId st) ps (concat (map chunkText chunks)))
               (sessions (beginTurn st env umc)) =
           map (appendedHistory (activeSessionId st) ps (concat (map chunkText chunks))) (sessions st)"
    by (intro appendedHistory_cong) (simp_all add: beginTurn_fields)
  show ?thesis
    using ts m f a by (simp add: p r beginTurn_fields appendedHistory_def [abs_def])
qed

theorem history_appended_only_on_success_witness:
  "runs sampleApp ''Write a poem'' \<and>
   (\<exists>ms fin. turnStates sampleApp draftEnv = Some (ms, fin) \<and>
      (\<forall>m\<in>set ms. map chatHistory (sessions m) = [[], [], []]) \<and>
      map chatHistory (sessions fin) =
        [[\<lparr>role = ''user'', parts = [TextPart ''[MODE: NORMAL]\<newline>Write a poem'']\<rparr>,
          \<lparr>role = ''model'', parts = [TextPart ''[Draft]\<newline>Roses are red'']\<rparr>], [], []])"
proof -
  have h: "map chatHistory (sessions sampleApp) = [[], [], []]"
    by (simp add: sampleApp_def sampleSession_def)
  have r: "reply draftEnv = Streams [draftChunk] True"
    by (simp add: draftEnv_def)
  have t: "concat (map chunkText [draftChunk]) = ''[Draft]\<newline>Roses are red''"
    by (simp add: chunkText_def draftChunk_def)
  from history_appended_only_on_success [OF sample_runs, of draftEnv]
  obtain ms fin where 1: "turnStates sampleApp draftEnv = Some (ms, fin)"
    and 2: "\<forall>m\<in>set ms. map chatHistory (sessions m) = map chatHistory (sessions sampleApp)"
    and 3: "map chatHistory (sessions fin) =
              (case (userPartsForHistory sampleApp draftEnv (finalPromptToServer sampleApp ''Write a poem''),
                     reply draftEnv) of
                 (Some userParts, Streams chunks True) \<Rightarrow>
                   map (\<lambda>s. if session_id s = activeSessionId sampleApp
                             then chatHistory s @
                                    [\<lparr>role = ''user'', parts = userParts\<rparr>,
                                     \<lparr>role = ''model'', parts = [TextPart (concat (map chunkText chunks))]\<rparr>]
                             else chatHistory s)
                       (sessions sampleApp)
               | _ \<Rightarrow> map chatHistory (sessions sampleApp))"
    by blast
  from 3 have 4: "map chatHistory (sessions fin) =
        [[\<lparr>role = ''user'', parts = [TextPart ''[MODE: NORMAL]\<newline>Write a poem'']\<rparr>,
          \<lparr>role = ''model'', parts = [TextPart ''[Draft]\<newline>Roses are red'']\<rparr>], [], []]"
    unfolding sample_parts r by (simp add: chunkText_def draftChunk_def sampleApp_def sampleSession_def)
  from 2 have 5: "\<forall>m\<in>set ms. map chatHistory (sessions m) = [[], [], []]"
    unfolding h .
  show ?thesis
    by (intro conjI exI [of _ ms] exI [of _ fin]) (rule sample_runs 1 5 4)+
qed

section \<open>Properties of the redactor\<close>

lemma b64_alphabet_length: "length b64_alphabet = 64"
  by (simp add: b64_alphabet_def)

lemma b64_alphabet_distinct: "distinct b64_alphabet"
  by (simp add: b64_alphabet_def)

lemma b64_index_b64: "n < 64 \<Longrightarrow> b64_index (b64 n) = Some n"
proof -
  assume n: "n < 64"
  have "map_of (zip b64_alphabet [0..<64]) (b64_alphabet ! n) = Some ([0..<64] ! n)"
    using n by (intro map_of_zip_nth) (simp_all add: b64_alphabet_length b64_alphabet_distinct)
  with n show ?thesis
    by (simp add: b64_index_def b64_def)
qed

lemma b64_not_pad: "b64 n \<noteq> CHR ''=''"
proof -
  have "b64 n \<in> set b64_alphabet"
    unfolding b64_def by (rule nth_mem) (simp add: b64_alphabet_length)
  moreover have "CHR ''='' \<notin> set b64_alphabet"
    by (simp add: b64_alphabet_def)
  ultimately show ?thesis by metis
qed


lemma split_digit:
  fixes q r :: nat
  assumes "r < m"
  shows "(q * m + r) div m = q" "(q * m + r) mod m = r"
  using assms by simp_all

lemma atob_group3:
  fixes x y z :: nat
  assumes "x < 256" "y < 256" "z < 256"
  shows "x div 4 < 64" "x mod 4 * 16 + y div 16 < 64" "y mod 16 * 4 + z div 64 < 64" "z mod 64 < 64"
    "x div 4 * 4 + (x mod 4 * 16 + y div 16) div 16 = x"
    "(x mod 4 * 16 + y div 16) mod 16 * 16 + (y mod 16 * 4 + z div 64) div 4 = y"
    "(y mod 16 * 4 + z div 64) mod 4 * 64 + z mod 64 = z"
proof -
  have b: "x mod 4 < 4" "y mod 16 < 16" "z mod 64 < 64" by simp_all
  from assms have d: "x div 4 < 64" "y div 16 < 16" "z div 64 < 4" by simp_all
  show "x div 4 < 64" by (rule d)
  show "x mod 4 * 16 + y div 16 < 64" using b(1) d(2) by linarith
  show "y mod 16 * 4 + z div 64 < 64" using b(2) d(3) by linarith
  show "z mod 64 < 64" by simp
  show "x div 4 * 4 + (x mod 4 * 16 + y div 16) div 16 = x"
    unfolding split_digit(1) [OF d(2)] by simp
  show "(x mod 4 * 16 + y div 16) mod 16 * 16 + (y mod 16 * 4 + z div 64) div 4 = y"
    unfolding split_digit(2) [OF d(2)] split_digit(1) [OF d(3)] by simp
  show "(y mod 16 * 4 + z div 64) mod 4 * 64 + z mod 64 = z"
    unfolding split_digit(2) [OF d(3)] by simp
qed

lemma atob_group2:
  fixes x y :: nat
  assumes "x < 256" "y < 256"
  shows "y mod 16 * 4 < 64"
    "(x mod 4 * 16 + y div 16) mod 16 * 16 + (y mod 16 * 4) div 4 = y"
proof -
  have b: "y mod 16 < 16" by simp
  from assms have d: "y div 16 < 16" by simp
  show "y mod 16 * 4 < 64" using b by linarith
  show "(x mod 4 * 16 + y div 16) mod 16 * 16 + (y mod 16 * 4) div 4 = y"
    unfolding split_digit(2) [OF d] by simp
qed

lemma atob_group1:
  fixes x :: nat
  assumes "x < 256"
  shows "x mod 4 * 16 < 64" "x div 4 * 4 + (x mod 4 * 16) div 16 = x"
proof -
  have b: "x mod 4 < 4" by simp
  show "x mod 4 * 16 < 64" using b by linarith
  show "x div 4 * 4 + (x mod 4 * 16) div 16 = x" by simp
qed

lemma utf8_arith:
  fixes n :: nat
  assumes "\<not> n < 128" "n < 256"
  shows "192 + n div 64 < 256" "128 + n mod 64 < 256"
      "192 \<le> 192 + n div 64" "192 + n div 64 < 196" "\<not> 192 + n div 64 < 128"
      "128 + n mod 64 < 192" "(192 + n div 64 - 192) * 64 + (128 + n mod 64 - 128) = n"
proof -
  from assms have d: "n div 64 < 4" by simp
  have m: "n mod 64 < 64" by simp
  show "192 + n div 64 < 256" using d by linarith
  show "128 + n mod 64 < 256" using m by linarith
  show "192 \<le> 192 + n div 64" by simp
  show "192 + n div 64 < 196" using d by linarith
  show "\<not> 192 + n div 64 < 128" by simp
  show "128 + n mod 64 < 192" using m by linarith
  show "(192 + n div 64 - 192) * 64 + (128 + n mod 64 - 128) = n" by simp
qed

lemma atob_btoa: "atob (btoa bs) = Some bs"
proof (induction bs rule: btoa.induct)
  case 1
  show ?case by simp
next
  case (2 a)
  have x: "(of_char a :: nat) < 256" by simp
  show ?case
    using atob_group1 [OF x] atob_group3(1) [OF x x x]
    by (simp add: Let_def b64_index_b64 b64_not_pad)
next
  case (3 a b)
  have x: "(of_char a :: nat) < 256" and y: "(of_char b :: nat) < 256" by simp_all
  show ?case
    using atob_group1 [OF x] atob_group2 [OF x y] atob_group3(1,2,5) [OF x y y]
    by (simp add: Let_def b64_index_b64 b64_not_pad)
next
  case (4 a b c rest)
  have x: "(of_char a :: nat) < 256" and y: "(of_char b :: nat) < 256"
    and z: "(of_char c :: nat) < 256" by simp_all
  show ?case
    using atob_group3 [OF x y z] "4.IH"
    by (simp add: Let_def b64_index_b64 b64_not_pad)
qed

lemma utf8_decode_char: "utf8_decode (utf8_char c @ bs) = map_option ((#) c) (utf8_decode bs)"
proof (cases "(of_char c :: nat) < 128")
  case True
  then show ?thesis
    by (cases bs) (simp_all add: utf8_char_def Let_def)
next
  case False
  let ?n = "of_char c :: nat"
  have n: "?n < 256" by simp
  note d = utf8_arith [OF False n]
  from False d show ?thesis
    by (cases bs) (simp_all add: utf8_char_def Let_def)
qed

lemma utf8_decode_utf8: "utf8_decode (utf8 s) = Some s"
  by (induction s) (simp_all add: utf8_def utf8_decode_char)

lemma decodeFile_roundtrip: "decodeFile (btoa (utf8 s)) = Some s"
  by (simp add: decodeFile_def atob_btoa utf8_decode_utf8)

lemma startsWith_prefix: "startsWith s p = prefix p s"
  by (induction s p rule: startsWith.induct) auto

lemma includes_str_sublist: "includes_str s p = sublist p s"
  by (induction s) (auto simp: startsWith_prefix sublist_Cons_right)

lemma prefix_within:
  assumes "prefix p (xs @ ys)" "length p \<le> length xs"
  shows "prefix p xs"
  using assms by (metis prefix_length_prefix prefixI prefix_def)

lemma no_earlier_occurrence:
  assumes "\<not> prefix p (xs @ butlast p)" "xs \<noteq> []" "p \<noteq> []"
  shows "\<not> prefix p (xs @ p @ rest)"
proof
  assume a: "prefix p (xs @ p @ rest)"
  have "xs @ p @ rest = (xs @ butlast p) @ (last p # rest)"
    using assms(3) by simp
  with a have "prefix p ((xs @ butlast p) @ (last p # rest))"
    by simp
  moreover have "length p \<le> length (xs @ butlast p)"
    using assms(2,3) by (cases xs) simp_all
  ultimately have "prefix p (xs @ butlast p)"
    by (rule prefix_within)
  with assms(1) show False ..
qed

lemma decl_nonempty: "decl_open \<noteq> []" "decl_close \<noteq> []"
  by (simp_all add: decl_open_def decl_close_def)

lemma after_close_unfold:
  "s \<noteq> [] \<Longrightarrow>
   after_close s =
     (if startsWith s decl_close then Some (drop (length decl_close) s) else after_close (tl s))"
  by (cases s) simp_all

lemma redact_unfold:
  "s \<noteq> [] \<Longrightarrow>
   redact s =
     (if startsWith s decl_open then
        (case after_close (drop (length decl_open) s) of
           Some rest \<Rightarrow> redacted_decl @ rest
         | None \<Rightarrow> hd s # redact (tl s))
      else hd s # redact (tl s))"
  by (cases s) (simp_all split: option.splits)

lemma after_close_nearest:
  assumes "\<not> includes_str (body @ butlast decl_close) decl_close"
  shows "after_close (body @ decl_close @ post) = Some post"
  using assms
proof (induction body)
  case Nil
  have "after_close (decl_close @ post) = Some post"
    by (subst after_close_unfold) (simp_all add: decl_nonempty startsWith_prefix)
  then show ?case by simp
next
  case (Cons c cs)
  from Cons.prems have n: "\<not> prefix decl_close ((c # cs) @ butlast decl_close)"
    and r: "\<not> includes_str (cs @ butlast decl_close) decl_close"
    by (simp_all add: startsWith_prefix)
  from n have "\<not> prefix decl_close ((c # cs) @ decl_close @ post)"
    by (rule no_earlier_occurrence) (simp_all add: decl_nonempty)
  then have "after_close ((c # cs) @ decl_close @ post) = after_close (cs @ decl_close @ post)"
    by (subst after_close_unfold) (simp_all add: startsWith_prefix)
  with Cons.IH [OF r] show ?case
    by simp
qed

lemma redact_first_block:
  assumes "\<not> includes_str (pre @ butlast decl_open) decl_open"
    and "\<not> includes_str (body @ butlast decl_close) decl_close"
  shows "redact (pre @ decl_open @ body @ decl_close @ post) = pre @ redacted_decl @ post"
  using assms(1)
proof (induction pre)
  case Nil
  have "redact (decl_open @ body @ decl_close @ post) = redacted_decl @ post"
    by (subst redact_unfold)
       (simp_all add: decl_nonempty startsWith_prefix after_close_nearest [OF assms(2)])
  then show ?case by simp
next
  case (Cons c cs)
  from Cons.prems have n: "\<not> prefix decl_open ((c # cs) @ butlast decl_open)"
    and r: "\<not> includes_str (cs @ butlast decl_open) decl_open"
    by (simp_all add: startsWith_prefix)
  from n have "\<not> prefix decl_open ((c # cs) @ decl_open @ body @ decl_close @ post)"
    by (rule no_earlier_occurrence) (simp_all add: decl_nonempty)
  then have "redact ((c # cs) @ decl_open @ body @ decl_close @ post) =
             c # redact (cs @ decl_open @ body @ decl_close @ post)"
    by (subst redact_unfold) (simp_all add: startsWith_prefix)
  with Cons.IH [OF r] show ?case
    by simp
qed

lemma meta_sample: "isMetaQuestion Awaiting_task ''Who are you?''"
  by code_simp

lemma r: "redact ''// const MASTER_PROMPT = `old`;\<newline>const MASTER_PROMPT = `S3CRET`;'' =
             ''// const MASTER_PROMPT = \"[REDACTED FOR SELF-ANALYSIS]\";\<newline>const MASTER_PROMPT = `S3CRET`;''"
  by code_simp

lemma i: "includes_str ''// const MASTER_PROMPT = \"[REDACTED FOR SELF-ANALYSIS]\";\<newline>const MASTER_PROMPT = `S3CRET`;''
     ''const MASTER_PROMPT = `S3CRET`;''"
  by code_simp

lemma join4: "join sep [a, b, c, d] = a @ sep @ b @ sep @ c @ sep @ d"
  by simp

lemma encodeFile_pair: "encodeFile (n, c) = ''[FILE: '' @ n @ '']\<newline>'' @ btoa (utf8 c)"
  by (simp add: encodeFile_def)

text \<open>
  The shape of the prompt: in a meta-question turn with source text available, when
  \<^verbatim>\<open>index.tsx\<close> is \<open>pre\<close>, the opening \<^verbatim>\<open>const MASTER_PROMPT = `\<close>, \<open>body\<close>, the closing \<^verbatim>\<open>`;\<close>
  and \<open>post\<close>, with no opening starting in \<open>pre\<close> and no closing starting in \<open>body\<close>, the
  prompt carries the four files tagged and Base64-encoded, \<^verbatim>\<open>index.tsx\<close> as \<open>pre\<close>, the
  placeholder declaration and \<open>post\<close>, and decoding that payload gives back this text.
\<close>

lemma meta_prompt_redacts_first_block:
  assumes "isMetaQuestion (stage st) umc" and "sourceCode st = Some src"
    and "index_tsx src = pre @ decl_open @ body @ decl_close @ post"
    and "\<not> includes_str (pre @ butlast decl_open) decl_open"
    and "\<not> includes_str (body @ butlast decl_close) decl_close"
  shows "finalPromptToServer st umc =
           metaHeader @
           join ''\<newline>\<newline>''
             [''[FILE: index.tsx]\<newline>'' @ btoa (utf8 (pre @ redacted_decl @ post)),
              ''[FILE: index.css]\<newline>'' @ btoa (utf8 (index_css src)),
              ''[FILE: index.html]\<newline>'' @ btoa (utf8 (index_html src)),
              ''[FILE: metadata.json]\<newline>'' @ btoa (utf8 (metadata_json src))] @
           metaFooter @ umc \<and>
         decodeFile (btoa (utf8 (pre @ redacted_decl @ post))) = Some (pre @ redacted_decl @ post)"
proof
  have p: "finalPromptToServer st umc = metaPrompt src umc"
    using assms(1,2) by (simp add: finalPromptToServer_def)
  have r: "redact (index_tsx src) = pre @ redacted_decl @ post"
    unfolding assms(3) using assms(4,5) by (rule redact_first_block)
  have e: "map encodeFile (entries (redactSource src)) =
             [''[FILE: index.tsx]\<newline>'' @ btoa (utf8 (pre @ redacted_decl @ post)),
              ''[FILE: index.css]\<newline>'' @ btoa (utf8 (index_css src)),
              ''[FILE: index.html]\<newline>'' @ btoa (utf8 (index_html src)),
              ''[FILE: metadata.json]\<newline>'' @ btoa (utf8 (metadata_json src))]"
    unfolding entries_def redactSource_def
    by (simp add: r encodeFile_pair del: btoa.simps redact.simps)
  show "finalPromptToServer st umc =
           metaHeader @
           join ''\<newline>\<newline>''
             [''[FILE: index.tsx]\<newline>'' @ btoa (utf8 (pre @ redacted_decl @ post)),
              ''[FILE: index.css]\<newline>'' @ btoa (utf8 (index_css src)),
              ''[FILE: index.html]\<newline>'' @ btoa (utf8 (index_html src)),
              ''[FILE: metadata.json]\<newline>'' @ btoa (utf8 (metadata_json src))] @
           metaFooter @ umc"
    unfolding p metaPrompt_def encodedCodeContext_def e ..
  show "decodeFile (btoa (utf8 (pre @ redacted_decl @ post))) = Some (pre @ redacted_decl @ post)"
    by (rule decodeFile_roundtrip)
qed

lemma sublist_of_three:
  assumes "sublist xs (a @ b @ c)"
  shows "sublist xs (a @ b) \<or> sublist xs (b @ c) \<or> sublist b xs"
proof -
  from assms obtain ps ss where e: "a @ b @ c = ps @ xs @ ss"
    by (auto simp: sublist_def)
  show ?thesis
  proof (cases "length ps + length xs \<le> length a + length b")
    case True
    have "take (length ps + length xs) (a @ b @ c) = take (length ps + length xs) (a @ b)"
      using True by simp
    moreover have "take (length ps + length xs) (ps @ xs @ ss) = ps @ xs"
      by simp
    ultimately have "ps @ xs = take (length ps + length xs) (a @ b)"
      using e by simp
    then have "a @ b = ps @ xs @ drop (length ps + length xs) (a @ b)"
      by (metis append.assoc append_take_drop_id)
    then show ?thesis
      unfolding sublist_def by blast
  next
    case False
    note far = this
    show ?thesis
    proof (cases "length a \<le> length ps")
      case True
      have "drop (length a) (a @ b @ c) = b @ c"
        by simp
      moreover have "drop (length a) (ps @ xs @ ss) = drop (length a) ps @ xs @ ss"
        using True by simp
      ultimately have "b @ c = drop (length a) ps @ xs @ ss"
        using e by simp
      then show ?thesis
        unfolding sublist_def by blast
    next
      case False
      let ?k = "length a - length ps"
      have "drop (length a) (a @ b @ c) = b @ c"
        by simp
      moreover have "drop (length a) (ps @ xs @ ss) = drop ?k xs @ ss"
        using False far by simp
      ultimately have bc: "b @ c = drop ?k xs @ ss"
        using e by simp
      have "length b \<le> length (drop ?k xs)"
        using False far by simp
      with bc have "b = take (length b) (drop ?k xs)"
        by (metis append_eq_conv_conj take_append le_refl take_all_iff diff_is_0_eq append.right_neutral take0 take_all)
      then have "xs = take ?k xs @ b @ drop (length b) (drop ?k xs)"
        by (metis append_take_drop_id)
      then show ?thesis
        unfolding sublist_def by blast
    qed
  qed
qed

lemma redacted_text_free_of_body:
  assumes "\<not> includes_str (pre @ redacted_decl) body"
    and "\<not> includes_str (redacted_decl @ post) body"
    and "\<not> includes_str body redacted_decl"
  shows "\<not> includes_str (pre @ redacted_decl @ post) body"
  using assms sublist_of_three [of body pre redacted_decl post]
  unfolding includes_str_sublist by blast

text \<open>
  Claim C7, for the source the program reads, its own \<^verbatim>\<open>index.tsx\<close>: the declaration of the
  prompt stands where the pattern finds it (no opening starts before it, no closing starts
  inside the prompt text), and the prompt text \<open>body\<close> occurs nowhere else: not in what
  precedes or follows the declaration with the placeholder in its place, not in the other
  files, and it does not contain the placeholder itself. In a meta-question turn with such
  source text available the prompt carries the four files tagged and Base64-encoded; each
  payload decodes to the text that was encoded, none of these texts contains the prompt
  text, and the one for \<^verbatim>\<open>index.tsx\<close> contains the placeholder declaration.
\<close>

theorem meta_prompt_hides_declaration:
  assumes "isMetaQuestion (stage st) umc" and "sourceCode st = Some src"
    and "index_tsx src = pre @ decl_open @ body @ decl_close @ post"
    and "\<not> includes_str (pre @ butlast decl_open) decl_open"
    and "\<not> includes_str (body @ butlast decl_close) decl_close"
    and "\<not> includes_str (pre @ redacted_decl) body"
    and "\<not> includes_str (redacted_decl @ post) body"
    and "\<not> includes_str body redacted_decl"
    and "\<not> includes_str (index_css src) body"
    and "\<not> includes_str (index_html src) body"
    and "\<not> includes_str (metadata_json src) body"
  shows "finalPromptToServer st umc =
           metaHeader @
           join ''\<newline>\<newline>''
             [''[FILE: index.tsx]\<newline>'' @ btoa (utf8 (pre @ redacted_decl @ post)),
              ''[FILE: index.css]\<newline>'' @ btoa (utf8 (index_css src)),
              ''[FILE: index.html]\<newline>'' @ btoa (utf8 (index_html src)),
              ''[FILE: metadata.json]\<newline>'' @ btoa (utf8 (metadata_json src))] @
           metaFooter @ umc \<and>
         (\<forall>c\<in>set [pre @ redacted_decl @ post, index_css src, index_html src, metadata_json src].
             decodeFile (btoa (utf8 c)) = Some c \<and> \<not> includes_str c body) \<and>
         includes_str (pre @ redacted_decl @ post) redacted_decl"
proof (intro conjI)
  show "finalPromptToServer st umc =
           metaHeader @
           join ''\<newline>\<newline>''
             [''[FILE: index.tsx]\<newline>'' @ btoa (utf8 (pre @ redacted_decl @ post)),
              ''[FILE: index.css]\<newline>'' @ btoa (utf8 (index_css src)),
              ''[FILE: index.html]\<newline>'' @ btoa (utf8 (index_html src)),
              ''[FILE: metadata.json]\<newline>'' @ btoa (utf8 (metadata_json src))] @
           metaFooter @ umc"
    using meta_prompt_redacts_first_block [OF assms(1-5)] by (rule conjunct1)
  have "\<not> includes_str (pre @ redacted_decl @ post) body"
    using assms(6-8) by (rule redacted_text_free_of_body)
  with assms(9-11)
  show "\<forall>c\<in>set [pre @ redacted_decl @ post, index_css src, index_html src, metadata_json src].
          decodeFile (btoa (utf8 c)) = Some c \<and> \<not> includes_str c body"
    by (simp add: decodeFile_roundtrip del: includes_str.simps)
  show "includes_str (pre @ redacted_decl @ post) redacted_decl"
    unfolding includes_str_sublist by (rule sublist_appendI)
qed

theorem meta_prompt_hides_declaration_witness:
  "isMetaQuestion (stage metaApp) ''Who are you?'' \<and> sourceCode metaApp = Some sampleSource \<and>
   index_tsx sampleSource = ''import x;\<newline>'' @ decl_open @ ''S3CRET'' @ decl_close @ ''\<newline>render();'' \<and>
   finalPromptToServer metaApp ''Who are you?'' =
     metaHeader @
     join ''\<newline>\<newline>''
       [''[FILE: index.tsx]\<newline>'' @ btoa (utf8 (''import x;\<newline>'' @ redacted_decl @ ''\<newline>render();'')),
        ''[FILE: index.css]\<newline>'' @ btoa (utf8 ''body {}''),
        ''[FILE: index.html]\<newline>'' @ btoa (utf8 ''<html></html>''),
        ''[FILE: metadata.json]\<newline>'' @ btoa (utf8 ''{}'')] @
     metaFooter @ ''Who are you?'' \<and>
   decodeFile (btoa (utf8 (''import x;\<newline>'' @ redacted_decl @ ''\<newline>render();''))) =
     Some (''import x;\<newline>'' @ redacted_decl @ ''\<newline>render();'') \<and>
   \<not> includes_str (''import x;\<newline>'' @ redacted_decl @ ''\<newline>render();'') ''S3CRET'' \<and>
   includes_str (''import x;\<newline>'' @ redacted_decl @ ''\<newline>render();'') redacted_decl"
proof -
  have g: "stage metaApp = Awaiting_task"
    by (simp add: metaApp_def sampleApp_def)
  have m: "isMetaQuestion (stage metaApp) ''Who are you?''"
    unfolding g by (rule meta_sample)
  have s: "sourceCode metaApp = Some sampleSource"
    by (simp add: metaApp_def sampleApp_def)
  have i: "index_tsx sampleSource = ''import x;\<newline>'' @ decl_open @ ''S3CRET'' @ decl_close @ ''\<newline>render();''"
    by code_simp
  have a: "\<not> includes_str (''import x;\<newline>'' @ butlast decl_open) decl_open"
    by code_simp
  have b: "\<not> includes_str (''S3CRET'' @ butlast decl_close) decl_close"
    by code_simp
  have h: "\<not> includes_str (''import x;\<newline>'' @ redacted_decl) ''S3CRET''"
    "\<not> includes_str (redacted_decl @ ''\<newline>render();'') ''S3CRET''"
    "\<not> includes_str ''S3CRET'' redacted_decl"
    by code_simp+
  have c: "index_css sampleSource = ''body {}''" "index_html sampleSource = ''<html></html>''"
    "metadata_json sampleSource = ''{}''"
    by (simp_all add: sampleSource_def)
  have o: "\<not> includes_str (index_css sampleSource) ''S3CRET''"
    "\<not> includes_str (index_html sampleSource) ''S3CRET''"
    "\<not> includes_str (metadata_json sampleSource) ''S3CRET''"
    by code_simp+
  note t = meta_prompt_hides_declaration [OF m s i a b h o, unfolded c]
  from t have 1: "finalPromptToServer metaApp ''Who are you?'' =
     metaHeader @
     join ''\<newline>\<newline>''
       [''[FILE: index.tsx]\<newline>'' @ btoa (utf8 (''import x;\<newline>'' @ redacted_decl @ ''\<newline>render();'')),
        ''[FILE: index.css]\<newline>'' @ btoa (utf8 ''body {}''),
        ''[FILE: index.html]\<newline>'' @ btoa (utf8 ''<html></html>''),
        ''[FILE: metadata.json]\<newline>'' @ btoa (utf8 ''{}'')] @
     metaFooter @ ''Who are you?''"
    by (rule conjunct1)
  from t have q: "\<forall>c\<in>set [''import x;\<newline>'' @ redacted_decl @ ''\<newline>render();'', ''body {}'', ''<html></html>'', ''{}''].
             decodeFile (btoa (utf8 c)) = Some c \<and> \<not> includes_str c ''S3CRET''"
    by (rule conjunct2 [THEN conjunct1])
  have 2: "decodeFile (btoa (utf8 (''import x;\<newline>'' @ redacted_decl @ ''\<newline>render();''))) =
     Some (''import x;\<newline>'' @ redacted_decl @ ''\<newline>render();'')"
    and 3: "\<not> includes_str (''import x;\<newline>'' @ redacted_decl @ ''\<newline>render();'') ''S3CRET''"
    using q [THEN bspec, of "''import x;\<newline>'' @ redacted_decl @ ''\<newline>render();''"]
    by (simp_all only: list.set insertI1 simp_thms)
  from t have 4: "includes_str (''import x;\<newline>'' @ redacted_decl @ ''\<newline>render();'') redacted_decl"
    by (rule conjunct2 [THEN conjunct2])
  show ?thesis
    by (intro conjI) (rule m s i 1 2 3 4)+
qed

section \<open>Properties of startup\<close>

lemma initApp_corrupt_record:
  assumes "fetched env = Some src" "clientOk env"
    and "zero_sessions st = Some raw" "raw \<noteq> []"
    and "zero_active_session_id st = Some aid" "aid \<noteq> []"
    and "parse raw = None"
  shows "initApp masterPrompt parse env st = initFailed env (st\<lparr>sourceCode := Some src, ai := True\<rparr>)"
  using assms by (simp add: initApp_def Let_def)

text \<open>
  Claim C3 asks that an unparseable record be discarded and a fresh session created. At
  the store below (both keys present, the session record cut short) \<^verbatim>\<open>JSON.parse\<close> throws
  inside the \<^verbatim>\<open>try\<close> of \<^verbatim>\<open>initApp\<close>, and startup ends in the \<^verbatim>\<open>catch\<close> block: the stage is
  \<^verbatim>\<open>error\<close>, the only session is the error session, and the effect log holds the logged
  error alone: no call for a fresh session was made.
\<close>

theorem initApp_corrupt_record_error_state:
  "stage (initApp ''You are to adopt a new persona'' parseEmptyOnly sampleInitEnv corruptStore) = Error_stage \<and>
   sessions (initApp ''You are to adopt a new persona'' parseEmptyOnly sampleInitEnv corruptStore) = [errorSession 7] \<and>
   activeSessionId (initApp ''You are to adopt a new persona'' parseEmptyOnly sampleInitEnv corruptStore) = ''error_session'' \<and>
   effects (initApp ''You are to adopt a new persona'' parseEmptyOnly sampleInitEnv corruptStore) = [ConsoleError ''Initialization failed:'']"
  by (simp add: initApp_def initFailed_def errorSession_def corruptStore_def mountedApp_def
        sampleInitEnv_def parseEmptyOnly_def Let_def)

text \<open>
  The save effect that follows then writes the error session over the record, so the
  next startup loads the error session as an ordinary one.
\<close>

lemma corrupt_record_replaced_by_error_session:
  assumes "fetched env = Some src" "clientOk env"
    and "zero_sessions st = Some raw" "raw \<noteq> []"
    and "zero_active_session_id st = Some aid" "aid \<noteq> []"
    and "parse raw = None"
  shows "zero_sessions (persist stringify (initApp masterPrompt parse env st)) =
           Some (stringify [errorSession (now_error env)]) \<and>
         zero_active_session_id (persist stringify (initApp masterPrompt parse env st)) =
           Some ''error_session''"
proof -
  have "initApp masterPrompt parse env st = initFailed env (st\<lparr>sourceCode := Some src, ai := True\<rparr>)"
    using assms by (rule initApp_corrupt_record)
  then show ?thesis
    by (simp add: persist_def initFailed_def errorSession_def)
qed

text \<open>The other \<^verbatim>\<open>index.tsx\<close> drops the record and reports that nothing was loaded.\<close>

lemma loadSessions_corrupt_discards:
  assumes "zero_sessions st = Some raw" "raw \<noteq> []"
    and "zero_active_session_id st = Some aid" "aid \<noteq> []"
    and "parse raw = None"
  shows "snd (loadSessions parse st) = False \<and>
         zero_sessions (fst (loadSessions parse st)) = None \<and>
         zero_active_session_id (fst (loadSessions parse st)) = None \<and>
         sessions (fst (loadSessions parse st)) = sessions st \<and>
         stage (fst (loadSessions parse st)) = stage st"
  using assms by (simp add: loadSessions_def)

lemma initApp_missing_record_fresh:
  assumes "fetched env = Some src" "clientOk env" "zero_sessions st = None"
    and "answer (create env) = Some responseText"
  shows "stage (initApp masterPrompt parse env st) = Awaiting_task \<and>
         length (sessions (initApp masterPrompt parse env st)) = Suc (length (sessions st))"
  using assms by (simp add: initApp_def freshStart_def createNewSession_def Let_def split: option.splits)

end
